theory Spec2Isabelle
  imports Complex_Main "HOL-Library.Sublist" "HOL-Library.AList"
begin

section \<open>H3 checkpoint conversion: the embedding\<close>

text \<open>
  The definitions below follow \<^verbatim>\<open>convert_h3_original_to_pytorch.py\<close>. Python strings are
  HOL strings, a Python dict is an association list in insertion order with unique keys,
  and every exception the script can raise on the modelled paths is a value of
  \<open>py_error\<close>.
\<close>

datatype py_error =
    KeyError string
  | UnboundLocalError string
  | AttributeError string
  | IndexError
  | RuntimeError string
  | AssertionError

subsection \<open>String primitives of Python\<close>

text \<open>\<^verbatim>\<open>sub in s\<close>: \<open>sub\<close> occurs in \<open>s\<close> as a contiguous block.\<close>

fun contains :: "string \<Rightarrow> string \<Rightarrow> bool" where
  "contains [] sub = (sub = [])"
| "contains (c # cs) sub = (prefix sub (c # cs) \<or> contains cs sub)"

text \<open>\<^verbatim>\<open>s.startswith(p)\<close>.\<close>

definition startswith :: "string \<Rightarrow> string \<Rightarrow> bool" where
  "startswith s p = prefix p s"

text \<open>
  \<^verbatim>\<open>s.replace(old, new)\<close>: every non-overlapping occurrence of \<open>old\<close>, found from the
  left, is replaced by \<open>new\<close>. For an empty \<open>old\<close> Python puts \<open>new\<close> before every
  character and at the end.
\<close>

function replace :: "string \<Rightarrow> string \<Rightarrow> string \<Rightarrow> string" where
  "replace [] old new = (if old = [] then new else [])"
| "replace (c # cs) old new =
     (if old = [] then new @ c # replace cs old new
      else if prefix old (c # cs) then new @ replace (drop (length old) (c # cs)) old new
      else c # replace cs old new)"
  by pat_completeness auto
termination
  by (relation "measure (\<lambda>(s, old, new). length s)") auto

text \<open>Decimal digits of a natural number, and \<^verbatim>\<open>str(i)\<close> for a Python int.\<close>

definition digit_char :: "nat \<Rightarrow> char" where
  "digit_char d = char_of (48 + d)"

fun str_nat :: "nat \<Rightarrow> string" where
  "str_nat n = (if n < 10 then [digit_char n] else str_nat (n div 10) @ [digit_char (n mod 10)])"

declare str_nat.simps [simp del]

definition str_int :: "int \<Rightarrow> string" where
  "str_int i = (if i < 0 then CHR ''-'' # str_nat (nat (- i)) else str_nat (nat i))"

subsection \<open>The config resolver\<close>

record H3Config =
  hidden_size :: int
  num_hidden_layers :: int
  num_attention_heads :: int
  attn_layer_idx :: "int list"

text \<open>
  \<^verbatim>\<open>get_h3_config\<close>: an \<^verbatim>\<open>if/elif\<close> chain with no \<^verbatim>\<open>else\<close> binds the four locals; for any other
  name the first read of \<^verbatim>\<open>hidden_size\<close> raises \<^verbatim>\<open>UnboundLocalError\<close>.
\<close>

definition get_h3_config :: "string \<Rightarrow> py_error + H3Config" where
  "get_h3_config model_name =
     (if model_name = ''H3-125m'' then
        Inr \<lparr>hidden_size = 768, num_hidden_layers = 12, num_attention_heads = 12,
             attn_layer_idx = [6]\<rparr>
      else if model_name = ''H3-355m'' then
        Inr \<lparr>hidden_size = 1024, num_hidden_layers = 24, num_attention_heads = 16,
             attn_layer_idx = [8, 16]\<rparr>
      else if model_name = ''H3-1.3b'' then
        Inr \<lparr>hidden_size = 2048, num_hidden_layers = 24, num_attention_heads = 16,
             attn_layer_idx = [8, 16]\<rparr>
      else if model_name = ''H3-2.7b'' then
        Inr \<lparr>hidden_size = 2560, num_hidden_layers = 32, num_attention_heads = 20,
             attn_layer_idx = [8, 16, 24]\<rparr>
      else Inl (UnboundLocalError ''hidden_size''))"

subsection \<open>The key renamer\<close>

text \<open>\<^verbatim>\<open>rename_key\<close>: three \<^verbatim>\<open>if\<close> statements in sequence, each reading the current name.\<close>

definition rename_key :: "string \<Rightarrow> string" where
  "rename_key name =
     (let name = (if contains name ''backbone.embeddings''
                  then replace name ''backbone'' ''h3'' else name);
          name = (if contains name ''backbone.layers''
                  then replace name ''backbone.layers'' ''h3.blocks'' else name);
          name = (if contains name ''backbone.ln_f''
                  then replace name ''backbone.ln_f'' ''h3.final_layernorm'' else name)
      in name)"

subsection \<open>The parameter mapping\<close>

text \<open>
  A Python dict keeps its entries in insertion order and its keys unique. \<^verbatim>\<open>d[k] = v\<close>
  overwrites the value of an existing key in place and appends a new key at the end;
  \<^verbatim>\<open>d.pop(k)\<close> removes the entry and returns its value, or raises \<^verbatim>\<open>KeyError\<close>.
\<close>

type_synonym 'v state_dict = "(string \<times> 'v) list"

definition dict_keys :: "'v state_dict \<Rightarrow> string list" where
  "dict_keys d = map fst d"

definition dict_contains :: "'v state_dict \<Rightarrow> string \<Rightarrow> bool" where
  "dict_contains d k = (k \<in> set (dict_keys d))"

definition dict_pop :: "string \<Rightarrow> 'v state_dict \<Rightarrow> py_error + ('v \<times> 'v state_dict)" where
  "dict_pop k d =
     (case map_of d k of
        None \<Rightarrow> Inl (KeyError k)
      | Some v \<Rightarrow> Inr (v, AList.delete k d))"

definition dict_set :: "string \<Rightarrow> 'v \<Rightarrow> 'v state_dict \<Rightarrow> 'v state_dict" where
  "dict_set k v d = AList.update k v d"

subsection \<open>The renaming pass\<close>

text \<open>
  \<^verbatim>\<open>convert_state_dict\<close>: the loop runs over the keys of a copy, so the keys visited are
  those the mapping had on entry, in their order; each is popped and its value stored
  under the renamed key.
\<close>

fun convert_loop :: "string list \<Rightarrow> 'v state_dict \<Rightarrow> py_error + 'v state_dict" where
  "convert_loop [] orig_state_dict = Inr orig_state_dict"
| "convert_loop (key # keys) orig_state_dict =
     (case dict_pop key orig_state_dict of
        Inl e \<Rightarrow> Inl e
      | Inr (val, d) \<Rightarrow> convert_loop keys (dict_set (rename_key key) val d))"

definition convert_state_dict :: "'v state_dict \<Rightarrow> py_error + 'v state_dict" where
  "convert_state_dict orig_state_dict = convert_loop (dict_keys orig_state_dict) orig_state_dict"

text \<open>
  The pure per-entry map the renaming pass is compared with: every entry \<open>(key, tensor)\<close>
  becomes \<open>(rename_key key, tensor)\<close>, independently of the others.
\<close>

definition rename_entries :: "'v state_dict \<Rightarrow> 'v state_dict" where
  "rename_entries d = map (\<lambda>(key, val). (rename_key key, val)) d"

subsection \<open>The normalization reindexer\<close>

text \<open>\<^verbatim>\<open>f"backbone.layers.{l}<sfx>"\<close>.\<close>

definition layers_key :: "int \<Rightarrow> string \<Rightarrow> string" where
  "layers_key l sfx = ''backbone.layers.'' @ str_int l @ sfx"

text \<open>
  The four-line pattern the script repeats: pop \<open>src.weight\<close>, pop \<open>src.bias\<close>, then store the
  two values under \<open>dst.weight\<close> and \<open>dst.bias\<close>.
\<close>

definition move_norm :: "string \<Rightarrow> string \<Rightarrow> 'v state_dict \<Rightarrow> py_error + 'v state_dict" where
  "move_norm src dst state_dict =
     (case dict_pop (src @ ''.weight'') state_dict of
        Inl e \<Rightarrow> Inl e
      | Inr (ln_weight, d1) \<Rightarrow>
          (case dict_pop (src @ ''.bias'') d1 of
             Inl e \<Rightarrow> Inl e
           | Inr (ln_bias, d2) \<Rightarrow>
               Inr (dict_set (dst @ ''.bias'') ln_bias
                      (dict_set (dst @ ''.weight'') ln_weight d2))))"

text \<open>
  \<^verbatim>\<open>for l in reversed(range(n_layers))\<close>: \<open>reindex_loop n\<close> runs the body for
  \<open>l = n - 1, \<dots>, 0\<close>.
\<close>

fun reindex_loop :: "nat \<Rightarrow> 'v state_dict \<Rightarrow> py_error + 'v state_dict" where
  "reindex_loop 0 state_dict = Inr state_dict"
| "reindex_loop (Suc l) state_dict =
     (case move_norm (layers_key (int l) ''.norm1'') (layers_key (int l) ''.norm2'') state_dict of
        Inl e \<Rightarrow> Inl e
      | Inr d1 \<Rightarrow>
          (case (if l > 0
                 then move_norm (layers_key (int l - 1) ''.norm2'')
                        (layers_key (int l) ''.norm1'') d1
                 else Inr d1) of
             Inl e \<Rightarrow> Inl e
           | Inr d2 \<Rightarrow> reindex_loop l d2))"

text \<open>Lines 104 to 123 of the script: the stage runs only when the sentinel key is present.\<close>

definition reindex :: "int \<Rightarrow> 'v state_dict \<Rightarrow> py_error + 'v state_dict" where
  "reindex n_layers state_dict =
     (if dict_contains state_dict ''backbone.ln_0.weight'' then
        (case move_norm (layers_key (n_layers - 1) ''.norm2'') ''backbone.ln_f'' state_dict of
           Inl e \<Rightarrow> Inl e
         | Inr d1 \<Rightarrow>
             (case reindex_loop (nat n_layers) d1 of
                Inl e \<Rightarrow> Inl e
              | Inr d2 \<Rightarrow> move_norm ''backbone.ln_0'' ''h3.blocks.0.norm1'' d2))
      else Inr state_dict)"

subsection \<open>The checkpoint loader's unwrapping\<close>

text \<open>
  What \<^verbatim>\<open>torch.load\<close> returns is a dict whose values are tensors or, in a training
  checkpoint, further objects: a nested dict under \<^verbatim>\<open>"state_dict"\<close>, strings elsewhere.
\<close>

datatype 'v py_obj = Tensor 'v | Dict "(string \<times> 'v py_obj) list" | Str string

text \<open>
  Lines 98 and 99. The comprehension visits the items of the nested dict in order and
  stores each kept value under its key without the first \<^verbatim>\<open>len("model.")\<close> characters.
\<close>

definition unwrap_lightning :: "'v py_obj state_dict \<Rightarrow> py_error + 'v py_obj state_dict" where
  "unwrap_lightning state_dict =
     (if dict_contains state_dict ''pytorch-lightning_version'' then
        (case map_of state_dict ''state_dict'' of
           None \<Rightarrow> Inl (KeyError ''state_dict'')
         | Some (Dict items) \<Rightarrow>
             Inr (foldl (\<lambda>acc (k, v). dict_set (drop (length ''model.'') k) v acc) []
                    (filter (\<lambda>(k, v). startswith k ''model.'') items))
         | Some _ \<Rightarrow> Inl (AttributeError ''items''))
      else Inr state_dict)"

subsection \<open>The state-mapping procedure as a whole\<close>

text \<open>Lines 98 to 125: unwrap, resolve the config, reindex, rename.\<close>

definition update_state_dict ::
  "string \<Rightarrow> 'v py_obj state_dict \<Rightarrow> py_error + 'v py_obj state_dict" where
  "update_state_dict model_name loaded =
     (case unwrap_lightning loaded of
        Inl e \<Rightarrow> Inl e
      | Inr state_dict \<Rightarrow>
          (case get_h3_config model_name of
             Inl e \<Rightarrow> Inl e
           | Inr config \<Rightarrow>
               (case reindex (num_hidden_layers config) state_dict of
                  Inl e \<Rightarrow> Inl e
                | Inr d \<Rightarrow> convert_state_dict d)))"

subsection \<open>The verifier's comparison\<close>







section \<open>Auxiliary notions for the proofs\<close>

text \<open>
  \<open>clean r t\<close>: no occurrence of \<open>t\<close> can start inside \<open>r\<close>, that is, no non-empty suffix of
  \<open>r\<close> is a prefix of \<open>t\<close> or has \<open>t\<close> as a prefix.
\<close>

definition clean :: "string \<Rightarrow> string \<Rightarrow> bool" where
  "clean r t = (\<forall>u \<in> set (suffixes r). u = [] \<or> (\<not> prefix t u \<and> \<not> prefix u t))"

text \<open>
  The effect of \<open>move_norm\<close> on the mapping seen as a partial function from keys to
  tensors.
\<close>

definition move_map :: "string \<Rightarrow> string \<Rightarrow> (string \<rightharpoonup> 'v) \<Rightarrow> (string \<rightharpoonup> 'v)" where
  "move_map src dst m =
     (m(src @ ''.weight'' := None, src @ ''.bias'' := None))
       (dst @ ''.weight'' := m (src @ ''.weight''), dst @ ''.bias'' := m (src @ ''.bias''))"

text \<open>
  The keys of the normalization parameters of layer \<open>l\<close>, with \<open>p\<close> one of the two
  parameter suffixes.
\<close>

definition norm1_key :: "nat \<Rightarrow> string \<Rightarrow> string" where
  "norm1_key l p = layers_key (int l) ''.norm1'' @ p"

definition norm2_key :: "nat \<Rightarrow> string \<Rightarrow> string" where
  "norm2_key l p = layers_key (int l) ''.norm2'' @ p"

definition params :: "string list" where
  "params = [''.weight'', ''.bias'']"

text \<open>
  A legacy mapping that the reindexer can process: both sentinel tensors and, for every
  layer below \<open>L\<close>, the weight and bias of \<open>norm1\<close> and \<open>norm2\<close>.
\<close>

definition legacy_layout :: "nat \<Rightarrow> 'v state_dict \<Rightarrow> bool" where
  "legacy_layout L d =
     (dict_contains d ''backbone.ln_0.weight'' \<and> dict_contains d ''backbone.ln_0.bias'' \<and>
      (\<forall>l \<in> set [0..<L]. \<forall>p \<in> set params.
         dict_contains d (norm1_key l p) \<and> dict_contains d (norm2_key l p)))"

text \<open>
  The keys a claim about the reindexer lists explicitly: as \<open>legacy_layout\<close>, without
  \<^verbatim>\<open>backbone.ln_0.bias\<close>.
\<close>

definition listed_layout :: "nat \<Rightarrow> 'v state_dict \<Rightarrow> bool" where
  "listed_layout L d =
     (dict_contains d ''backbone.ln_0.weight'' \<and>
      (\<forall>l \<in> set [0..<L]. \<forall>p \<in> set params.
         dict_contains d (norm1_key l p) \<and> dict_contains d (norm2_key l p)))"

text \<open>
  The key lists of the bijection: the keys of a mapping that holds the normalization
  entries of \<open>L\<close> layers and the sentinel and nothing else; the keys after reindexing;
  and, in the order of the latter, the key each of them takes its tensor from.
\<close>

definition legacy_keys :: "nat \<Rightarrow> string list" where
  "legacy_keys L =
     map (\<lambda>p. ''backbone.ln_0'' @ p) params @
     concat (map (\<lambda>l. map (norm1_key l) params @ map (norm2_key l) params) [0..<L])"

definition reindexed_keys :: "nat \<Rightarrow> string list" where
  "reindexed_keys L =
     map (\<lambda>p. ''backbone.ln_f'' @ p) params @
     map (\<lambda>p. ''h3.blocks.0.norm1'' @ p) params @
     concat (map (\<lambda>l. map (norm2_key l) params) [0..<L]) @
     concat (map (\<lambda>l. map (norm1_key l) params) [1..<L])"

definition source_keys :: "nat \<Rightarrow> string list" where
  "source_keys L =
     map (norm2_key (L - 1)) params @
     map (\<lambda>p. ''backbone.ln_0'' @ p) params @
     concat (map (\<lambda>l. map (norm1_key l) params) [0..<L]) @
     concat (map (\<lambda>l. map (norm2_key (l - 1)) params) [1..<L])"


section \<open>Properties\<close>

subsection \<open>Substring test and replacement\<close>

lemma contains_sublist: "contains s t \<longleftrightarrow> sublist t s"
  by (induction s) (auto simp: sublist_Cons_right)

lemma contains_append_right: "contains ys t \<Longrightarrow> contains (xs @ ys) t"
  by (simp add: contains_sublist sublist_append)

lemma contains_trans: "contains s t \<Longrightarrow> contains t u \<Longrightarrow> contains s u"
  unfolding contains_sublist using sublist_order.order_trans by blast

lemma prefix_append_cases:
  "prefix t (r @ x) \<Longrightarrow> prefix t r \<or> prefix r t"
  by (auto simp: prefix_append)

lemma contains_append_clean:
  "clean r t \<Longrightarrow> contains (r @ x) t \<Longrightarrow> contains x t"
proof (induction r)
  case Nil
  then show ?case by simp
next
  case (Cons c r)
  have "clean r t" using Cons.prems(1) by (auto simp: clean_def)
  moreover have "\<not> prefix t ((c # r) @ x)"
    using Cons.prems(1) prefix_append_cases[of t "c # r" x] by (auto simp: clean_def)
  ultimately show ?case using Cons by simp
qed

lemma prefix_replace:
  "old \<noteq> [] \<Longrightarrow> new \<noteq> [] \<Longrightarrow> hd new \<notin> set u \<Longrightarrow> prefix u (replace s old new) \<Longrightarrow> prefix u s"
proof (induction s old new arbitrary: u rule: replace.induct)
  case (1 old new)
  then show ?case by simp
next
  case (2 c cs old new)
  show ?case
  proof (cases "prefix old (c # cs)")
    case True
    have "prefix u (new @ replace (drop (length old) (c # cs)) old new)"
      using 2(4,7) True by simp
    then have "u = []" using 2(5,6) by (cases u; cases new) auto
    then show ?thesis by simp
  next
    case False
    have "prefix u (c # replace cs old new)"
      using 2(4,7) False by simp
    then show ?thesis using 2(3)[OF 2(4) False 2(4,5)] 2(6) by (cases u) auto
  qed
qed

lemma replace_match:
  "old \<noteq> [] \<Longrightarrow> prefix old s \<Longrightarrow>
   replace s old new = new @ replace (drop (length old) s) old new"
  by (cases s) auto

lemma replace_nomatch:
  "old \<noteq> [] \<Longrightarrow> \<not> prefix old (c # cs) \<Longrightarrow>
   replace (c # cs) old new = c # replace cs old new"
  by simp

lemma contains_drop: "contains (drop n s) t \<Longrightarrow> contains s t"
  using contains_append_right[of "drop n s" t "take n s"] by simp

lemma contains_replace_other:
  assumes "old \<noteq> []" "new \<noteq> []" "hd new \<notin> set t" "clean new t"
  shows "contains (replace s old new) t \<Longrightarrow> contains s t"
  using assms
proof (induction s old new rule: replace.induct)
  case (1 old new)
  then show ?case by simp
next
  case (2 c cs old new)
  show ?case
  proof (cases "prefix old (c # cs)")
    case True
    have eq: "replace (c # cs) old new = new @ replace (drop (length old) (c # cs)) old new"
      using "2.prems"(2) True by (rule replace_match)
    have "contains (new @ replace (drop (length old) (c # cs)) old new) t"
      using "2.prems"(1) unfolding eq .
    then have "contains (replace (drop (length old) (c # cs)) old new) t"
      using "2.prems" contains_append_clean by blast
    then have "contains (drop (length old) (c # cs)) t"
      using "2.IH"(2) "2.prems" True by blast
    then show ?thesis by (rule contains_drop)
  next
    case False
    have eq: "replace (c # cs) old new = c # replace cs old new"
      using "2.prems"(2) False by (rule replace_nomatch)
    have "contains (c # replace cs old new) t"
      using "2.prems"(1) unfolding eq .
    then have "prefix t (c # replace cs old new) \<or> contains (replace cs old new) t"
      by simp
    then show ?thesis
    proof
      assume "prefix t (c # replace cs old new)"
      then have "prefix t (replace (c # cs) old new)"
        unfolding eq .
      then have "prefix t (c # cs)" using prefix_replace "2.prems" by blast
      then show ?thesis by simp
    next
      assume "contains (replace cs old new) t"
      then have "contains cs t" using "2.IH"(3) "2.prems" False by blast
      then show ?thesis by simp
    qed
  qed
qed

lemma not_contains_replace_self:
  assumes "old \<noteq> []" "new \<noteq> []" "hd new \<notin> set old" "clean new old"
  shows "\<not> contains (replace s old new) old"
  using assms
proof (induction s old new rule: replace.induct)
  case (1 old new)
  then show ?case by simp
next
  case (2 c cs old new)
  show ?case
  proof (cases "prefix old (c # cs)")
    case True
    have "\<not> contains (replace (drop (length old) (c # cs)) old new) old"
      using "2.IH"(2) "2.prems" True by blast
    then have "\<not> contains (new @ replace (drop (length old) (c # cs)) old new) old"
      using "2.prems" contains_append_clean by blast
    then show ?thesis
      unfolding replace_match[OF "2.prems"(1) True] .
  next
    case False
    have "\<not> prefix old (replace (c # cs) old new)"
      using prefix_replace "2.prems" False by blast
    moreover have "\<not> contains (replace cs old new) old"
      using "2.IH"(3) "2.prems" False by blast
    ultimately show ?thesis using "2.prems" False by simp
  qed
qed

subsection \<open>The three rules of the key renamer\<close>

lemma clean_h3_backbone: "clean ''h3'' ''backbone''"
  by (simp add: clean_def)

lemma clean_blocks:
  "clean ''h3.blocks'' ''backbone.layers''"
  "clean ''h3.blocks'' ''backbone.embeddings''"
  "clean ''h3.blocks'' ''backbone.ln_f''"
  by (simp_all add: clean_def)

lemma clean_final:
  "clean ''h3.final_layernorm'' ''backbone.layers''"
  "clean ''h3.final_layernorm'' ''backbone.embeddings''"
  "clean ''h3.final_layernorm'' ''backbone.ln_f''"
  by (simp_all add: clean_def)

lemma contains_backbone:
  "contains ''backbone.embeddings'' ''backbone''"
  "contains ''backbone.layers'' ''backbone''"
  "contains ''backbone.ln_f'' ''backbone''"
  by simp_all

lemma rule1_clears:
  "\<not> contains (replace s ''backbone'' ''h3'') ''backbone''"
  by (rule not_contains_replace_self) (simp_all add: clean_h3_backbone)

lemma rule1_clears_all:
  "\<not> contains (replace s ''backbone'' ''h3'') ''backbone.embeddings''"
  "\<not> contains (replace s ''backbone'' ''h3'') ''backbone.layers''"
  "\<not> contains (replace s ''backbone'' ''h3'') ''backbone.ln_f''"
  using rule1_clears[of s] contains_trans contains_backbone by blast+

lemma rule2_clears:
  "\<not> contains (replace s ''backbone.layers'' ''h3.blocks'') ''backbone.layers''"
  by (rule not_contains_replace_self) (simp_all add: clean_blocks)

lemma rule2_keeps:
  "contains (replace s ''backbone.layers'' ''h3.blocks'') ''backbone.embeddings''
    \<Longrightarrow> contains s ''backbone.embeddings''"
  "contains (replace s ''backbone.layers'' ''h3.blocks'') ''backbone.ln_f''
    \<Longrightarrow> contains s ''backbone.ln_f''"
  by (erule contains_replace_other[rotated -1]; simp add: clean_blocks)+

lemma rule3_clears:
  "\<not> contains (replace s ''backbone.ln_f'' ''h3.final_layernorm'') ''backbone.ln_f''"
  by (rule not_contains_replace_self) (simp_all add: clean_final)

lemma rule3_keeps:
  "contains (replace s ''backbone.ln_f'' ''h3.final_layernorm'') ''backbone.embeddings''
    \<Longrightarrow> contains s ''backbone.embeddings''"
  "contains (replace s ''backbone.ln_f'' ''h3.final_layernorm'') ''backbone.layers''
    \<Longrightarrow> contains s ''backbone.layers''"
  by (erule contains_replace_other[rotated -1]; simp add: clean_final)+

lemma rename_key_no_match:
  "\<not> contains k ''backbone.embeddings'' \<Longrightarrow> \<not> contains k ''backbone.layers'' \<Longrightarrow>
   \<not> contains k ''backbone.ln_f'' \<Longrightarrow> rename_key k = k"
  by (simp add: rename_key_def)

lemma rename_key_steps:
  fixes k :: string
  defines "k1 \<equiv> (if contains k ''backbone.embeddings'' then replace k ''backbone'' ''h3'' else k)"
  defines "k2 \<equiv> (if contains k1 ''backbone.layers''
                   then replace k1 ''backbone.layers'' ''h3.blocks'' else k1)"
  defines "k3 \<equiv> (if contains k2 ''backbone.ln_f''
                   then replace k2 ''backbone.ln_f'' ''h3.final_layernorm'' else k2)"
  shows "rename_key k = k3"
  unfolding rename_key_def Let_def k1_def k2_def k3_def ..

lemma rename_key_clears:
  "\<not> contains (rename_key k) ''backbone.embeddings''"
  "\<not> contains (rename_key k) ''backbone.layers''"
  "\<not> contains (rename_key k) ''backbone.ln_f''"
proof -
  define k1 where "k1 = (if contains k ''backbone.embeddings'' then replace k ''backbone'' ''h3'' else k)"
  define k2 where "k2 = (if contains k1 ''backbone.layers''
                   then replace k1 ''backbone.layers'' ''h3.blocks'' else k1)"
  define k3 where "k3 = (if contains k2 ''backbone.ln_f''
                   then replace k2 ''backbone.ln_f'' ''h3.final_layernorm'' else k2)"
  have r: "rename_key k = k3"
    unfolding k1_def k2_def k3_def by (rule rename_key_steps)
  have e1: "\<not> contains k1 ''backbone.embeddings''"
    using rule1_clears_all(1)[of k] by (cases "contains k ''backbone.embeddings''") (simp_all only: k1_def if_True if_False not_False_eq_True)
  have e2: "\<not> contains k2 ''backbone.embeddings''"
    using e1 rule2_keeps(1)[of k1] by (cases "contains k1 ''backbone.layers''") (auto simp only: k2_def if_True if_False)
  have l2: "\<not> contains k2 ''backbone.layers''"
    using rule2_clears[of k1] by (cases "contains k1 ''backbone.layers''") (auto simp only: k2_def if_True if_False)
  have e3: "\<not> contains k3 ''backbone.embeddings''"
    using e2 rule3_keeps(1)[of k2] by (cases "contains k2 ''backbone.ln_f''") (auto simp only: k3_def if_True if_False)
  have l3: "\<not> contains k3 ''backbone.layers''"
    using l2 rule3_keeps(2)[of k2] by (cases "contains k2 ''backbone.ln_f''") (auto simp only: k3_def if_True if_False)
  have f3: "\<not> contains k3 ''backbone.ln_f''"
    using rule3_clears[of k2] by (cases "contains k2 ''backbone.ln_f''") (auto simp only: k3_def if_True if_False)
  show "\<not> contains (rename_key k) ''backbone.embeddings''"
    "\<not> contains (rename_key k) ''backbone.layers''"
    "\<not> contains (rename_key k) ''backbone.ln_f''"
    using e3 l3 f3 unfolding r by blast+
qed

lemma rename_key_idem: "rename_key (rename_key k) = rename_key k"
  by (rule rename_key_no_match) (rule rename_key_clears)+

lemma rename_key_embeddings:
  assumes "contains k ''backbone.embeddings''"
  shows "rename_key k = replace k ''backbone'' ''h3''"
proof -
  let ?k1 = "replace k ''backbone'' ''h3''"
  have "\<not> contains ?k1 ''backbone.layers''" "\<not> contains ?k1 ''backbone.ln_f''"
    by (rule rule1_clears_all)+
  then show ?thesis
    unfolding rename_key_def Let_def using assms by (simp only: if_True if_False)
qed

lemma rename_key_layers:
  assumes "\<not> contains k ''backbone.embeddings''" "contains k ''backbone.layers''"
    "\<not> contains k ''backbone.ln_f''"
  shows "rename_key k = replace k ''backbone.layers'' ''h3.blocks''"
proof -
  let ?k2 = "replace k ''backbone.layers'' ''h3.blocks''"
  have "\<not> contains ?k2 ''backbone.ln_f''"
    using assms(3) rule2_keeps(2) by blast
  then show ?thesis
    unfolding rename_key_def Let_def using assms by (simp only: if_True if_False)
qed

lemma rename_key_ln_f:
  assumes "\<not> contains k ''backbone.embeddings''" "\<not> contains k ''backbone.layers''"
    "contains k ''backbone.ln_f''"
  shows "rename_key k = replace k ''backbone.ln_f'' ''h3.final_layernorm''"
  unfolding rename_key_def Let_def using assms by (simp only: if_True if_False)

text \<open>
  Claim C5. A key that contains none of the three patterns \<^verbatim>\<open>backbone.embeddings\<close>,
  \<^verbatim>\<open>backbone.layers\<close>, \<^verbatim>\<open>backbone.ln_f\<close> is returned unchanged. A key that contains exactly one
  of them is rewritten by that one rule and by no other: \<^verbatim>\<open>replace("backbone", "h3")\<close> for the
  embeddings pattern, \<^verbatim>\<open>replace("backbone.layers", "h3.blocks")\<close> for the layers pattern,
  \<^verbatim>\<open>replace("backbone.ln_f", "h3.final_layernorm")\<close> for the final-norm pattern, where
  \<^verbatim>\<open>replace\<close> rewrites every occurrence in the key.
\<close>

theorem rename_key_one_rule:
  "(\<not> contains k ''backbone.embeddings'' \<and> \<not> contains k ''backbone.layers'' \<and>
    \<not> contains k ''backbone.ln_f'' \<longrightarrow> rename_key k = k) \<and>
   (contains k ''backbone.embeddings'' \<and> \<not> contains k ''backbone.layers'' \<and>
    \<not> contains k ''backbone.ln_f'' \<longrightarrow> rename_key k = replace k ''backbone'' ''h3'') \<and>
   (\<not> contains k ''backbone.embeddings'' \<and> contains k ''backbone.layers'' \<and>
    \<not> contains k ''backbone.ln_f'' \<longrightarrow>
      rename_key k = replace k ''backbone.layers'' ''h3.blocks'') \<and>
   (\<not> contains k ''backbone.embeddings'' \<and> \<not> contains k ''backbone.layers'' \<and>
    contains k ''backbone.ln_f'' \<longrightarrow>
      rename_key k = replace k ''backbone.ln_f'' ''h3.final_layernorm'')"
  using rename_key_no_match[of k] rename_key_embeddings[of k] rename_key_layers[of k]
    rename_key_ln_f[of k]
  by blast

theorem rename_key_one_rule_witness:
  "rename_key ''h3.blocks.3.mixer.weight'' = ''h3.blocks.3.mixer.weight'' \<and>
   rename_key ''backbone.embeddings.word_embeddings.weight'' =
     ''h3.embeddings.word_embeddings.weight'' \<and>
   rename_key ''backbone.layers.3.mixer.weight'' = ''h3.blocks.3.mixer.weight'' \<and>
   rename_key ''backbone.ln_f.bias'' = ''h3.final_layernorm.bias''"
proof -
  have a: "rename_key ''h3.blocks.3.mixer.weight'' = ''h3.blocks.3.mixer.weight''"
    using rename_key_one_rule[of "''h3.blocks.3.mixer.weight''"] by simp
  have b: "rename_key ''backbone.embeddings.word_embeddings.weight'' =
     ''h3.embeddings.word_embeddings.weight''"
    using rename_key_one_rule[of "''backbone.embeddings.word_embeddings.weight''"] by simp
  have c: "rename_key ''backbone.layers.3.mixer.weight'' = ''h3.blocks.3.mixer.weight''"
    using rename_key_one_rule[of "''backbone.layers.3.mixer.weight''"] by simp
  have d: "rename_key ''backbone.ln_f.bias'' = ''h3.final_layernorm.bias''"
    using rename_key_one_rule[of "''backbone.ln_f.bias''"] by simp
  show ?thesis using a b c d by blast
qed

lemma rename_entries_idem: "rename_entries (rename_entries d) = rename_entries d"
  by (induction d) (auto simp: rename_entries_def rename_key_idem)

text \<open>
  Claim C10. \<open>rename_key\<close> is idempotent: a renamed key contains none of the three trigger
  substrings, so renaming it again changes nothing, and a second renaming pass over an
  already renamed mapping leaves every entry as it is.
\<close>

theorem rename_key_idempotent:
  "rename_key (rename_key k) = rename_key k \<and>
   \<not> contains (rename_key k) ''backbone.embeddings'' \<and>
   \<not> contains (rename_key k) ''backbone.layers'' \<and>
   \<not> contains (rename_key k) ''backbone.ln_f'' \<and>
   rename_entries (rename_entries d) = rename_entries d"
  using rename_key_idem rename_key_clears rename_entries_idem by blast

subsection \<open>The renaming pass as a per-entry map\<close>

lemma dict_pop_present:
  "map_of d k = Some v \<Longrightarrow> dict_pop k d = Inr (v, AList.delete k d)"
  by (simp add: dict_pop_def)

lemma key_lookup: "k \<in> fst ` set d \<Longrightarrow> \<exists>v. map_of d k = Some v"
  by (cases "map_of d k") (auto simp: map_of_eq_None_iff)

lemma update_absent: "k \<notin> fst ` set al \<Longrightarrow> AList.update k v al = al @ [(k, v)]"
  by (induction al) auto

lemma map_of_the: "distinct (map fst d) \<Longrightarrow> map (\<lambda>k. (f k, the (map_of d k))) (map fst d) = map (\<lambda>(k, v). (f k, v)) d"
  by (induction d) (auto simp: rev_image_eqI)

lemma convert_loop_general:
  assumes "distinct (map fst cur)" "distinct ks" "set ks \<subseteq> fst ` set cur"
    "\<forall>k \<in> set ks. rename_key k = k \<or> rename_key k \<notin> fst ` set cur"
    "inj_on rename_key (set ks)"
  shows "convert_loop ks cur =
    Inr (filter (\<lambda>e. fst e \<notin> set ks) cur @ map (\<lambda>k. (rename_key k, the (map_of cur k))) ks)"
  using assms
proof (induction ks arbitrary: cur)
  case Nil
  then show ?case by simp
next
  case (Cons k ks)
  obtain v where v: "map_of cur k = Some v"
    using Cons.prems(3) key_lookup[of k cur] by auto
  let ?cur1 = "AList.delete k cur"
  let ?cur' = "?cur1 @ [(rename_key k, v)]"
  have keys1: "fst ` set ?cur1 = fst ` set cur - {k}"
    by (auto simp: AList.delete_eq)
  have rk_notin: "rename_key k \<notin> fst ` set ?cur1"
    using Cons.prems(4) keys1 by auto
  have step: "convert_loop (k # ks) cur = convert_loop ks ?cur'"
    using v rk_notin by (simp add: dict_pop_present dict_set_def update_absent)
  have d': "distinct (map fst ?cur')"
    using Cons.prems(1) rk_notin by (simp add: distinct_delete)
  have sub': "set ks \<subseteq> fst ` set ?cur'"
    using Cons.prems(2,3) keys1 by auto
  have fresh': "\<forall>k' \<in> set ks. rename_key k' = k' \<or> rename_key k' \<notin> fst ` set ?cur'"
  proof
    fix k' assume k': "k' \<in> set ks"
    then have "k' \<noteq> k" using Cons.prems(2) by auto
    then have "rename_key k' \<noteq> rename_key k"
      using Cons.prems(5) k' by (auto simp: inj_on_def)
    then show "rename_key k' = k' \<or> rename_key k' \<notin> fst ` set ?cur'"
      using Cons.prems(4) k' keys1 by auto
  qed
  have inj': "inj_on rename_key (set ks)"
    using Cons.prems(5) by (auto simp: inj_on_def)
  have rk_ks: "rename_key k \<notin> set ks"
    using rk_notin Cons.prems(2,3) keys1 by auto
  have filt: "filter (\<lambda>e. fst e \<notin> set ks) ?cur' =
      filter (\<lambda>e. fst e \<notin> set (k # ks)) cur @ [(rename_key k, v)]"
    using rk_ks by (auto simp: AList.delete_eq intro: filter_cong)
  have look: "map (\<lambda>k'. (rename_key k', the (map_of ?cur' k'))) ks =
      map (\<lambda>k'. (rename_key k', the (map_of cur k'))) ks"
  proof (rule map_cong[OF refl])
    fix k' assume k': "k' \<in> set ks"
    then have ne: "k' \<noteq> k" using Cons.prems(2) by auto
    have "k' \<in> fst ` set ?cur1" using k' ne Cons.prems(3) keys1 by auto
    then have "map_of ?cur' k' = map_of ?cur1 k'"
      by (auto simp: map_add_def map_of_eq_None_iff split: option.splits)
    then show "(rename_key k', the (map_of ?cur' k')) = (rename_key k', the (map_of cur k'))"
      using ne by (simp add: delete_conv')
  qed
  have "convert_loop (k # ks) cur =
      Inr (filter (\<lambda>e. fst e \<notin> set ks) ?cur' @
           map (\<lambda>k'. (rename_key k', the (map_of ?cur' k'))) ks)"
    unfolding step
    by (rule Cons.IH[OF d' Cons.prems(2)[simplified, THEN conjunct2] sub' fresh' inj'])
  also have "\<dots> = Inr ((filter (\<lambda>e. fst e \<notin> set (k # ks)) cur @ [(rename_key k, v)]) @
           map (\<lambda>k'. (rename_key k', the (map_of cur k'))) ks)"
    by (simp only: filt look)
  also have "\<dots> = Inr (filter (\<lambda>e. fst e \<notin> set (k # ks)) cur @
           map (\<lambda>k'. (rename_key k', the (map_of cur k'))) (k # ks))"
    using v by simp
  finally show ?case .
qed

lemma rename_key_fresh:
  assumes "inj_on rename_key K" "k \<in> K"
  shows "rename_key k = k \<or> rename_key k \<notin> K"
proof (cases "rename_key k \<in> K")
  case True
  have "rename_key (rename_key k) = rename_key k" by (rule rename_key_idem)
  then have "rename_key k = k" using assms True by (auto simp: inj_on_def)
  then show ?thesis by simp
next
  case False
  then show ?thesis by simp
qed

lemma map_of_keyed_lookup:
  "inj_on g (set ks) \<Longrightarrow> k \<in> set ks \<Longrightarrow>
   map_of (map (\<lambda>k. (g k, f k)) ks) (g k) = Some (f k)"
  by (induction ks) (auto simp: inj_on_def)

lemma map_of_keyed_perm:
  assumes "inj_on g (set ks)" "set ks = set ks'"
  shows "map_of (map (\<lambda>k. (g k, f k)) ks) = map_of (map (\<lambda>k. (g k, f k)) ks')"
proof
  fix x
  show "map_of (map (\<lambda>k. (g k, f k)) ks) x = map_of (map (\<lambda>k. (g k, f k)) ks') x"
  proof (cases "x \<in> g ` set ks")
    case True
    then obtain k where k: "k \<in> set ks" "x = g k" by auto
    then show ?thesis
      using assms map_of_keyed_lookup[of g ks k f] map_of_keyed_lookup[of g ks' k f] by simp
  next
    case False
    then have "map_of (map (\<lambda>k. (g k, f k)) ks) x = None"
      by (auto simp: map_of_eq_None_iff image_iff)
    moreover have "map_of (map (\<lambda>k. (g k, f k)) ks') x = None"
      using False assms(2) by (auto simp: map_of_eq_None_iff image_iff)
    ultimately show ?thesis by simp
  qed
qed

lemma filter_all_keys: "filter (\<lambda>e. fst e \<notin> fst ` set d) d = []"
  by (induction d) auto

lemma convert_loop_permuted:
  assumes "distinct (dict_keys d)" "inj_on rename_key (set (dict_keys d))"
    "distinct ks" "set ks = set (dict_keys d)"
  shows "convert_loop ks d = Inr (map (\<lambda>k. (rename_key k, the (map_of d k))) ks)"
proof -
  have fresh: "\<forall>k \<in> set ks. rename_key k = k \<or> rename_key k \<notin> fst ` set d"
    using rename_key_fresh[OF assms(2)] assms(4) by (auto simp: dict_keys_def)
  have "convert_loop ks d =
      Inr (filter (\<lambda>e. fst e \<notin> set ks) d @ map (\<lambda>k. (rename_key k, the (map_of d k))) ks)"
    using assms fresh by (intro convert_loop_general) (auto simp: dict_keys_def)
  moreover have "filter (\<lambda>e. fst e \<notin> set ks) d = []"
    using filter_all_keys[of d] assms(4) by (simp add: dict_keys_def)
  ultimately show ?thesis by simp
qed

lemma rename_entries_keyed:
  "distinct (dict_keys d) \<Longrightarrow>
   rename_entries d = map (\<lambda>k. (rename_key k, the (map_of d k))) (dict_keys d)"
  unfolding dict_keys_def rename_entries_def by (rule map_of_the[symmetric])

text \<open>
  Claim C4. On every mapping (unique keys) over whose key set \<open>rename_key\<close> is injective,
  the in-place pop/insert loop of \<^verbatim>\<open>convert_state_dict\<close> returns, without raising, the
  mapping obtained by sending every entry \<open>(key, tensor)\<close> to \<open>(rename_key key, tensor)\<close>,
  the entries in their original order; and visiting the keys in any other order yields
  the same mapping from keys to tensors.
\<close>

theorem convert_state_dict_refines:
  assumes "distinct (dict_keys d)" "inj_on rename_key (set (dict_keys d))"
  shows "convert_state_dict d = Inr (rename_entries d) \<and>
    (\<forall>ks. distinct ks \<and> set ks = set (dict_keys d) \<longrightarrow>
       (\<exists>d'. convert_loop ks d = Inr d' \<and> map_of d' = map_of (rename_entries d)))"
proof (intro conjI allI impI)
  show "convert_state_dict d = Inr (rename_entries d)"
    unfolding convert_state_dict_def
    using convert_loop_permuted[OF assms assms(1) refl] rename_entries_keyed[OF assms(1)]
    by simp
next
  fix ks assume ks: "distinct ks \<and> set ks = set (dict_keys d)"
  have "convert_loop ks d = Inr (map (\<lambda>k. (rename_key k, the (map_of d k))) ks)"
    using convert_loop_permuted[OF assms] ks by blast
  moreover have "map_of (map (\<lambda>k. (rename_key k, the (map_of d k))) ks) =
      map_of (rename_entries d)"
    unfolding rename_entries_keyed[OF assms(1)]
    using map_of_keyed_perm[of rename_key ks "dict_keys d"] assms(2) ks by auto
  ultimately show "\<exists>d'. convert_loop ks d = Inr d' \<and> map_of d' = map_of (rename_entries d)"
    by blast
qed

theorem convert_state_dict_refines_witness:
  "convert_state_dict
     [(''backbone.layers.0.mixer.weight'', 1::nat), (''backbone.ln_f.weight'', 2),
      (''h3.blocks.0.norm1.weight'', 3)] =
   Inr [(''h3.blocks.0.mixer.weight'', 1), (''h3.final_layernorm.weight'', 2),
        (''h3.blocks.0.norm1.weight'', 3)] \<and>
   (\<exists>d'. convert_loop
       [''h3.blocks.0.norm1.weight'', ''backbone.ln_f.weight'', ''backbone.layers.0.mixer.weight'']
       [(''backbone.layers.0.mixer.weight'', 1::nat), (''backbone.ln_f.weight'', 2),
        (''h3.blocks.0.norm1.weight'', 3)] = Inr d' \<and>
      map_of d' = map_of [(''h3.blocks.0.mixer.weight'', 1), (''h3.final_layernorm.weight'', 2),
        (''h3.blocks.0.norm1.weight'', 3)])"
proof -
  let ?d = "[(''backbone.layers.0.mixer.weight'', 1::nat), (''backbone.ln_f.weight'', 2),
      (''h3.blocks.0.norm1.weight'', 3)]"
  have r: "rename_key ''backbone.layers.0.mixer.weight'' = ''h3.blocks.0.mixer.weight''"
    "rename_key ''backbone.ln_f.weight'' = ''h3.final_layernorm.weight''"
    "rename_key ''h3.blocks.0.norm1.weight'' = ''h3.blocks.0.norm1.weight''"
    by (simp_all add: rename_key_def)
  have h1: "distinct (dict_keys ?d)" by (simp add: dict_keys_def)
  have h2: "inj_on rename_key (set (dict_keys ?d))"
    by (simp add: dict_keys_def r)
  have e: "rename_entries ?d = [(''h3.blocks.0.mixer.weight'', 1), (''h3.final_layernorm.weight'', 2),
        (''h3.blocks.0.norm1.weight'', 3)]"
    by (simp add: rename_entries_def r)
  have p: "distinct [''h3.blocks.0.norm1.weight'', ''backbone.ln_f.weight'', ''backbone.layers.0.mixer.weight''] \<and>
    set [''h3.blocks.0.norm1.weight'', ''backbone.ln_f.weight'', ''backbone.layers.0.mixer.weight''] = set (dict_keys ?d)"
    by (auto simp: dict_keys_def)
  show ?thesis
    using convert_state_dict_refines[OF h1 h2] p unfolding e by blast
qed

subsection \<open>Unwrapping a training checkpoint\<close>

lemma foldl_dict_set_append:
  "distinct (map fst acc @ map (\<lambda>e. g (fst e)) xs) \<Longrightarrow>
   foldl (\<lambda>acc (k, v). dict_set (g k) v acc) acc xs = acc @ map (\<lambda>(k, v). (g k, v)) xs"
proof (induction xs arbitrary: acc)
  case Nil
  then show ?case by simp
next
  case (Cons x xs)
  obtain k v where x: "x = (k, v)" by (cases x)
  have fresh: "g k \<notin> fst ` set acc" using Cons.prems x by auto
  have step: "dict_set (g k) v acc = acc @ [(g k, v)]"
    unfolding dict_set_def using fresh by (rule update_absent)
  have "distinct (map fst (acc @ [(g k, v)]) @ map (\<lambda>e. g (fst e)) xs)"
    using Cons.prems x by auto
  then have "foldl (\<lambda>acc (k, v). dict_set (g k) v acc) (acc @ [(g k, v)]) xs =
      (acc @ [(g k, v)]) @ map (\<lambda>(k, v). (g k, v)) xs"
    by (rule Cons.IH)
  then show ?case using x step by simp
qed

lemma strip_prefix_inj:
  "prefix p a \<Longrightarrow> prefix p b \<Longrightarrow> drop (length p) a = drop (length p) b \<Longrightarrow> a = b"
  by (auto simp: prefix_def)

lemma distinct_stripped:
  assumes "distinct (map fst items)"
  shows "distinct (map (\<lambda>e. drop (length p) (fst e)) (filter (\<lambda>(k, v). startswith k p) items))"
proof -
  have "distinct (map fst (filter (\<lambda>(k, v). startswith k p) items))"
    using assms by (rule distinct_map_filter)
  moreover have "inj_on (drop (length p)) (set (map fst (filter (\<lambda>(k, v). startswith k p) items)))"
    by (auto simp: inj_on_def startswith_def intro: strip_prefix_inj)
  ultimately have "distinct (map (drop (length p)) (map fst (filter (\<lambda>(k, v). startswith k p) items)))"
    by (simp only: distinct_map simp_thms)
  then show ?thesis by (simp add: comp_def)
qed

lemma map_of_stripped:
  "map_of (map (\<lambda>(k, v). (drop (length p) k, v)) (filter (\<lambda>(k, v). startswith k p) items)) k =
   map_of items (p @ k)"
proof (induction items)
  case Nil
  then show ?case by simp
next
  case (Cons x items)
  obtain a v where x: "x = (a, v)" by (cases x)
  show ?case
  proof (cases "prefix p a")
    case True
    then obtain a' where a: "a = p @ a'" by (auto simp: prefix_def)
    then show ?thesis using Cons.IH x by (simp add: startswith_def)
  next
    case False
    then have "a \<noteq> p @ k" by auto
    then show ?thesis using Cons.IH x False by (simp add: startswith_def)
  qed
qed

lemma unwrap_lightning_eq:
  assumes "dict_contains ckpt ''pytorch-lightning_version''"
    "map_of ckpt ''state_dict'' = Some (Dict items)" "distinct (dict_keys items)"
  shows "unwrap_lightning ckpt =
    Inr (map (\<lambda>(k, v). (drop (length ''model.'') k, v))
           (filter (\<lambda>(k, v). startswith k ''model.'') items))"
proof -
  have "distinct (map fst [] @ map (\<lambda>e. drop (length ''model.'') (fst e))
          (filter (\<lambda>(k, v). startswith k ''model.'') items))"
    using distinct_stripped[of items "''model.''"] assms(3) by (simp add: dict_keys_def)
  then have "foldl (\<lambda>acc (k, v). dict_set (drop (length ''model.'') k) v acc) []
          (filter (\<lambda>(k, v). startswith k ''model.'') items) =
       [] @ map (\<lambda>(k, v). (drop (length ''model.'') k, v))
          (filter (\<lambda>(k, v). startswith k ''model.'') items)"
    by (rule foldl_dict_set_append)
  then show ?thesis using assms(1,2) by (simp add: unwrap_lightning_def)
qed

text \<open>
  Claim C8. If the loaded object contains the key \<^verbatim>\<open>pytorch-lightning_version\<close> and its
  \<^verbatim>\<open>state_dict\<close> field is a dict, the loader replaces it by the mapping that holds, for
  exactly the entries of that dict whose key starts with \<^verbatim>\<open>model.\<close>, the key without this
  prefix and the value unchanged, in the same order; entries whose key lacks the prefix
  are dropped. So a key \<open>k\<close> of the result holds what \<^verbatim>\<open>model.\<close>\<open>k\<close> held before.
\<close>

theorem unwrap_lightning_strips_prefix:
  assumes "dict_contains ckpt ''pytorch-lightning_version''"
    "map_of ckpt ''state_dict'' = Some (Dict items)" "distinct (dict_keys items)"
  shows "\<exists>d. unwrap_lightning ckpt = Inr d \<and>
    d = map (\<lambda>(k, v). (drop (length ''model.'') k, v))
          (filter (\<lambda>(k, v). startswith k ''model.'') items) \<and>
    distinct (dict_keys d) \<and>
    (\<forall>k. map_of d k = map_of items (''model.'' @ k)) \<and>
    set (dict_keys d) = {k. ''model.'' @ k \<in> set (dict_keys items)}"
proof -
  let ?d = "map (\<lambda>(k, v). (drop (length ''model.'') k, v))
          (filter (\<lambda>(k, v). startswith k ''model.'') items)"
  have look: "\<And>k. map_of ?d k = map_of items (''model.'' @ k)"
    by (rule map_of_stripped)
  have dist: "distinct (dict_keys ?d)"
    using distinct_stripped[of items "''model.''"] assms(3)
    by (simp add: dict_keys_def comp_def case_prod_unfold)
  have keys: "set (dict_keys ?d) = {k. ''model.'' @ k \<in> set (dict_keys items)}"
  proof -
    have "\<And>k. k \<in> set (dict_keys ?d) \<longleftrightarrow> ''model.'' @ k \<in> set (dict_keys items)"
      unfolding dict_keys_def using look
      by (metis (no_types, lifting) map_of_eq_None_iff set_map)
    then show ?thesis by blast
  qed
  show ?thesis
    using unwrap_lightning_eq[OF assms] look dist keys by blast
qed

theorem unwrap_lightning_strips_prefix_witness:
  "unwrap_lightning
     [(''pytorch-lightning_version'', Str ''1.5.0''),
      (''state_dict'', Dict [(''model.backbone.ln_0.weight'', Tensor (1::nat)),
                             (''loss.weight'', Tensor 2),
                             (''model.lm_head.weight'', Tensor 3)])] =
   Inr [(''backbone.ln_0.weight'', Tensor 1), (''lm_head.weight'', Tensor 3)]"
proof -
  let ?items = "[(''model.backbone.ln_0.weight'', Tensor (1::nat)),
                             (''loss.weight'', Tensor 2),
                             (''model.lm_head.weight'', Tensor 3)]"
  let ?ckpt = "[(''pytorch-lightning_version'', Str ''1.5.0''), (''state_dict'', Dict ?items)]"
  have h1: "dict_contains ?ckpt ''pytorch-lightning_version''"
    by (simp add: dict_contains_def dict_keys_def)
  have h2: "map_of ?ckpt ''state_dict'' = Some (Dict ?items)" by simp
  have h3: "distinct (dict_keys ?items)" by (simp add: dict_keys_def)
  have e: "map (\<lambda>(k, v). (drop (length ''model.'') k, v))
          (filter (\<lambda>(k, v). startswith k ''model.'') ?items) =
        [(''backbone.ln_0.weight'', Tensor 1), (''lm_head.weight'', Tensor 3)]"
    by (simp add: startswith_def)
  show ?thesis
    using unwrap_lightning_strips_prefix[OF h1 h2 h3] unfolding e by blast
qed

subsection \<open>Config resolver\<close>

text \<open>
  Claim C6. For each of the four recognized model-size identifiers the config resolver
  returns exactly the fixed tuple of hidden size, number of layers, number of heads and
  attention layer indices; for every other identifier it raises an error
  (\<^verbatim>\<open>UnboundLocalError\<close> at the first read of an unbound local) and returns no configuration.
\<close>

theorem get_h3_config_table:
  "get_h3_config ''H3-125m'' =
     Inr \<lparr>hidden_size = 768, num_hidden_layers = 12, num_attention_heads = 12,
          attn_layer_idx = [6]\<rparr> \<and>
   get_h3_config ''H3-355m'' =
     Inr \<lparr>hidden_size = 1024, num_hidden_layers = 24, num_attention_heads = 16,
          attn_layer_idx = [8, 16]\<rparr> \<and>
   get_h3_config ''H3-1.3b'' =
     Inr \<lparr>hidden_size = 2048, num_hidden_layers = 24, num_attention_heads = 16,
          attn_layer_idx = [8, 16]\<rparr> \<and>
   get_h3_config ''H3-2.7b'' =
     Inr \<lparr>hidden_size = 2560, num_hidden_layers = 32, num_attention_heads = 20,
          attn_layer_idx = [8, 16, 24]\<rparr> \<and>
   (\<forall>name. name \<notin> {''H3-125m'', ''H3-355m'', ''H3-1.3b'', ''H3-2.7b''} \<longrightarrow>
      get_h3_config name = Inl (UnboundLocalError ''hidden_size''))"
  by (simp add: get_h3_config_def)

theorem get_h3_config_table_witness:
  "get_h3_config ''H3-7b'' = Inl (UnboundLocalError ''hidden_size'') \<and>
   num_hidden_layers (projr (get_h3_config ''H3-2.7b'')) = 32"
proof -
  have "''H3-7b'' \<notin> {''H3-125m'', ''H3-355m'', ''H3-1.3b'', ''H3-2.7b''}" by simp
  then show ?thesis using get_h3_config_table by simp
qed

lemma config_layers_positive:
  "get_h3_config model_name = Inr config \<Longrightarrow> 12 \<le> num_hidden_layers config"
  by (auto simp: get_h3_config_def split: if_splits)

subsection \<open>Reindexer: the stage is skipped without the sentinel\<close>

text \<open>
  Claim C3. For every input mapping that does not contain the sentinel key
  \<^verbatim>\<open>backbone.ln_0.weight\<close>, the reindexing stage returns the mapping it was given: no entry
  is added, removed, renamed or modified, and the order of the entries is kept. So what
  the state-mapping procedure hands to the renaming pass is the loaded mapping itself.
\<close>

theorem reindex_skipped_without_sentinel:
  assumes "\<not> dict_contains d ''backbone.ln_0.weight''"
  shows "reindex n_layers d = Inr d \<and>
    (unwrap_lightning loaded = Inr d \<and> get_h3_config model_name = Inr config \<longrightarrow>
       update_state_dict model_name loaded = convert_state_dict d)"
  using assms by (simp add: reindex_def update_state_dict_def)

theorem reindex_skipped_without_sentinel_witness:
  "\<not> dict_contains [(''h3.blocks.0.norm1.weight'', Tensor (1::nat)),
                      (''h3.final_layernorm.weight'', Tensor 2)] ''backbone.ln_0.weight'' \<and>
   reindex 12 [(''h3.blocks.0.norm1.weight'', Tensor (1::nat)),
               (''h3.final_layernorm.weight'', Tensor 2)] =
     Inr [(''h3.blocks.0.norm1.weight'', Tensor 1), (''h3.final_layernorm.weight'', Tensor 2)] \<and>
   update_state_dict ''H3-125m''
       [(''h3.blocks.0.norm1.weight'', Tensor (1::nat)), (''h3.final_layernorm.weight'', Tensor 2)] =
     convert_state_dict
       [(''h3.blocks.0.norm1.weight'', Tensor 1), (''h3.final_layernorm.weight'', Tensor 2)]"
proof -
  let ?d = "[(''h3.blocks.0.norm1.weight'', Tensor (1::nat)),
             (''h3.final_layernorm.weight'', Tensor 2)]"
  have h: "\<not> dict_contains ?d ''backbone.ln_0.weight''"
    by (simp add: dict_contains_def dict_keys_def)
  have u: "unwrap_lightning ?d = Inr ?d"
    by (simp add: unwrap_lightning_def dict_contains_def dict_keys_def)
  have c: "get_h3_config ''H3-125m'' =
      Inr \<lparr>hidden_size = 768, num_hidden_layers = 12, num_attention_heads = 12,
           attn_layer_idx = [6]\<rparr>"
    by (simp add: get_h3_config_def)
  show ?thesis
    using h u c reindex_skipped_without_sentinel[OF h, of 12 ?d "''H3-125m''"] by simp
qed

subsection \<open>Verifier\<close>






subsection \<open>Keys of the normalization parameters\<close>

lemma append_sep_eq_iff:
  "x \<notin> set xs \<Longrightarrow> x \<notin> set xs' \<Longrightarrow>
   xs @ x # ys = xs' @ x # ys' \<longleftrightarrow> xs = xs' \<and> ys = ys'"
proof (induction xs arbitrary: xs')
  case Nil
  then show ?case by (cases xs') auto
next
  case (Cons a xs)
  then show ?case by (cases xs') auto
qed

lemma of_char_digit: "d < 10 \<Longrightarrow> of_char (digit_char d) = 48 + d"
  by (simp add: digit_char_def)

lemma digit_char_inj:
  assumes "a < 10" "b < 10" "digit_char a = digit_char b"
  shows "a = b"
proof -
  have "(of_char (digit_char a) :: nat) = of_char (digit_char b)" using assms(3) by simp
  then show ?thesis using assms(1,2) by (simp add: of_char_digit)
qed

lemma digit_char_not_sep:
  assumes "d < 10"
  shows "digit_char d \<noteq> CHR ''.''" "digit_char d \<noteq> CHR ''-''"
proof -
  have "(of_char (digit_char d) :: nat) \<noteq> of_char CHR ''.''"
    "(of_char (digit_char d) :: nat) \<noteq> of_char CHR ''-''"
    using assms by (simp_all add: of_char_digit)
  then show "digit_char d \<noteq> CHR ''.''" "digit_char d \<noteq> CHR ''-''" by auto
qed

lemma str_nat_nonempty: "str_nat n \<noteq> []"
  by (subst str_nat.simps) simp

lemma str_nat_chars: "c \<in> set (str_nat n) \<Longrightarrow> c \<noteq> CHR ''.'' \<and> c \<noteq> CHR ''-''"
proof (induction n rule: str_nat.induct)
  case (1 n)
  show ?case
  proof (cases "n < 10")
    case True
    then show ?thesis using "1.prems" digit_char_not_sep[of n]
      by (subst (asm) str_nat.simps) auto
  next
    case False
    have "n mod 10 < 10" by simp
    then show ?thesis using "1.prems" "1.IH" False digit_char_not_sep[of "n mod 10"]
      by (subst (asm) str_nat.simps) auto
  qed
qed

lemma str_nat_inj: "str_nat n = str_nat m \<Longrightarrow> n = m"
proof (induction n arbitrary: m rule: str_nat.induct)
  case (1 n)
  show ?case
  proof (cases "n < 10")
    case n: True
    show ?thesis
    proof (cases "m < 10")
      case True
      then show ?thesis using "1.prems" n digit_char_inj
        by (subst (asm) str_nat.simps, subst (asm) (2) str_nat.simps) auto
    next
      case False
      have "str_nat m = str_nat (m div 10) @ [digit_char (m mod 10)]"
        using False by (subst str_nat.simps) simp
      moreover have "str_nat n = [digit_char n]" using n by (subst str_nat.simps) simp
      ultimately show ?thesis using "1.prems" str_nat_nonempty[of "m div 10"] by (cases "str_nat (m div 10)") auto
    qed
  next
    case n: False
    have en: "str_nat n = str_nat (n div 10) @ [digit_char (n mod 10)]"
      using n by (subst str_nat.simps) simp
    show ?thesis
    proof (cases "m < 10")
      case True
      have "str_nat m = [digit_char m]" using True by (subst str_nat.simps) simp
      then show ?thesis using "1.prems" en str_nat_nonempty[of "n div 10"] by (cases "str_nat (n div 10)") auto
    next
      case False
      have em: "str_nat m = str_nat (m div 10) @ [digit_char (m mod 10)]"
        using False by (subst str_nat.simps) simp
      have "str_nat (n div 10) = str_nat (m div 10)" "digit_char (n mod 10) = digit_char (m mod 10)"
        using "1.prems" en em by auto
      then have "n div 10 = m div 10" "n mod 10 = m mod 10"
        using "1.IH"[OF n] digit_char_inj[of "n mod 10" "m mod 10"] by auto
      then show ?thesis by (metis div_mult_mod_eq)
    qed
  qed
qed

lemma str_int_nat: "str_int (int n) = str_nat n"
  by (simp add: str_int_def)

lemma str_int_no_dot: "CHR ''.'' \<notin> set (str_int i)"
  using str_nat_chars by (auto simp: str_int_def)

lemma str_int_inj: "str_int i = str_int j \<Longrightarrow> i = j"
proof -
  have neg: "\<And>n m. CHR ''-'' # str_nat n \<noteq> str_nat m"
    using str_nat_chars by (metis list.set_intros(1))
  then have neg': "\<And>n m. str_nat m \<noteq> CHR ''-'' # str_nat n"
    by (metis (no_types))
  assume "str_int i = str_int j"
  then show ?thesis
    using neg neg' str_nat_inj[of "nat i" "nat j"] str_nat_inj[of "nat (- i)" "nat (- j)"]
    by (auto simp: str_int_def split: if_splits)
qed

lemma layers_key_eq_iff:
  "layers_key i (CHR ''.'' # s) @ p = layers_key j (CHR ''.'' # t) @ q \<longleftrightarrow> i = j \<and> s @ p = t @ q"
proof -
  have "str_int i @ CHR ''.'' # (s @ p) = str_int j @ CHR ''.'' # (t @ q)
      \<longleftrightarrow> str_int i = str_int j \<and> s @ p = t @ q"
    by (rule append_sep_eq_iff[OF str_int_no_dot str_int_no_dot])
  then show ?thesis using str_int_inj by (auto simp: layers_key_def)
qed

subsection \<open>The reindexer on a legacy mapping\<close>

lemma move_map_apply:
  "move_map src dst m k =
     (if k = dst @ ''.bias'' then m (src @ ''.bias'')
      else if k = dst @ ''.weight'' then m (src @ ''.weight'')
      else if k = src @ ''.weight'' \<or> k = src @ ''.bias'' then None
      else m k)"
  by (simp add: move_map_def)

lemma move_norm_present:
  assumes "map_of d (src @ ''.weight'') = Some w" "map_of d (src @ ''.bias'') = Some b"
  shows "\<exists>d'. move_norm src dst d = Inr d' \<and> map_of d' = move_map src dst (map_of d) \<and>
           (distinct (map fst d) \<longrightarrow> distinct (map fst d'))"
proof -
  let ?d1 = "AList.delete (src @ ''.weight'') d"
  let ?d2 = "AList.delete (src @ ''.bias'') ?d1"
  let ?d' = "dict_set (dst @ ''.bias'') b (dict_set (dst @ ''.weight'') w ?d2)"
  have p1: "dict_pop (src @ ''.weight'') d = Inr (w, ?d1)"
    using assms(1) by (rule dict_pop_present)
  have "map_of ?d1 (src @ ''.bias'') = Some b"
    using assms(2) by (simp add: delete_conv')
  then have p2: "dict_pop (src @ ''.bias'') ?d1 = Inr (b, ?d2)"
    by (rule dict_pop_present)
  have r: "move_norm src dst d = Inr ?d'"
    by (simp add: move_norm_def p1 p2)
  have m: "map_of ?d' = move_map src dst (map_of d)"
    using assms by (simp add: dict_set_def update_conv' delete_conv' move_map_def)
  have "distinct (map fst d) \<Longrightarrow> distinct (map fst ?d')"
    by (simp add: dict_set_def distinct_update distinct_delete)
  then show ?thesis using r m by blast
qed

lemma move_norm_missing_bias:
  assumes "map_of d (src @ ''.weight'') = Some w" "map_of d (src @ ''.bias'') = None"
  shows "move_norm src dst d = Inl (KeyError (src @ ''.bias''))"
  using assms by (simp add: move_norm_def dict_pop_def delete_conv')

lemma norm_key_eq [simp]:
  "norm1_key l p = norm1_key l' p' \<longleftrightarrow> l = l' \<and> p = p'"
  "norm2_key l p = norm2_key l' p' \<longleftrightarrow> l = l' \<and> p = p'"
  "norm1_key l p \<noteq> norm2_key l' p'"
  "norm2_key l p \<noteq> norm1_key l' p'"
  by (simp_all add: norm1_key_def norm2_key_def layers_key_eq_iff)

lemma layers_key_not_literal:
  "layers_key i s @ p \<noteq> ''backbone.ln_f'' @ q"
  "layers_key i s @ p \<noteq> ''backbone.ln_0'' @ q"
  "layers_key i s @ p \<noteq> ''h3.blocks.0.norm1'' @ q"
  by (simp_all add: layers_key_def)

lemma norm_key_not_literal [simp]:
  "norm1_key l p \<noteq> ''backbone.ln_f'' @ q" "''backbone.ln_f'' @ q \<noteq> norm1_key l p"
  "norm1_key l p \<noteq> ''backbone.ln_0'' @ q" "''backbone.ln_0'' @ q \<noteq> norm1_key l p"
  "norm1_key l p \<noteq> ''h3.blocks.0.norm1'' @ q" "''h3.blocks.0.norm1'' @ q \<noteq> norm1_key l p"
  "norm2_key l p \<noteq> ''backbone.ln_f'' @ q" "''backbone.ln_f'' @ q \<noteq> norm2_key l p"
  "norm2_key l p \<noteq> ''backbone.ln_0'' @ q" "''backbone.ln_0'' @ q \<noteq> norm2_key l p"
  "norm2_key l p \<noteq> ''h3.blocks.0.norm1'' @ q" "''h3.blocks.0.norm1'' @ q \<noteq> norm2_key l p"
  using layers_key_not_literal[of "int l" _ p q]
  by (auto simp: norm1_key_def norm2_key_def simp del: append.simps) (metis)+

lemmas norm_key_lit [simp] =
  norm_key_not_literal[where q = "''.weight''", simplified]
  norm_key_not_literal[where q = "''.bias''", simplified]

lemma params_cases: "p \<in> set params \<longleftrightarrow> p = ''.weight'' \<or> p = ''.bias''"
  by (auto simp: params_def)

lemma move_map_norm1_norm2:
  "move_map (layers_key (int j) ''.norm1'') (layers_key (int j) ''.norm2'') m k =
     (if k = norm2_key j ''.bias'' then m (norm1_key j ''.bias'')
      else if k = norm2_key j ''.weight'' then m (norm1_key j ''.weight'')
      else if k = norm1_key j ''.weight'' \<or> k = norm1_key j ''.bias'' then None
      else m k)"
  by (simp add: move_map_apply norm1_key_def norm2_key_def)

lemma move_map_norm2_norm1:
  "0 < j \<Longrightarrow>
   move_map (layers_key (int j - 1) ''.norm2'') (layers_key (int j) ''.norm1'') m k =
     (if k = norm1_key j ''.bias'' then m (norm2_key (j - 1) ''.bias'')
      else if k = norm1_key j ''.weight'' then m (norm2_key (j - 1) ''.weight'')
      else if k = norm2_key (j - 1) ''.weight'' \<or> k = norm2_key (j - 1) ''.bias'' then None
      else m k)"
  by (simp add: move_map_apply norm1_key_def norm2_key_def of_nat_diff)

lemma reindex_loop_spec:
  fixes d :: "'v state_dict"
  assumes "\<forall>l p. l < j \<and> p \<in> set params \<longrightarrow> map_of d (norm1_key l p) \<noteq> None"
    and "\<forall>l p. Suc l < j \<and> p \<in> set params \<longrightarrow> map_of d (norm2_key l p) \<noteq> None"
  shows "\<exists>d'. reindex_loop j d = Inr d' \<and>
     (distinct (map fst d) \<longrightarrow> distinct (map fst d')) \<and>
     (\<forall>l p. l < j \<and> p \<in> set params \<longrightarrow> map_of d' (norm2_key l p) = map_of d (norm1_key l p)) \<and>
     (\<forall>l p. 0 < l \<and> l < j \<and> p \<in> set params \<longrightarrow>
        map_of d' (norm1_key l p) = map_of d (norm2_key (l - 1) p)) \<and>
     (\<forall>p. 0 < j \<and> p \<in> set params \<longrightarrow> map_of d' (norm1_key 0 p) = None) \<and>
     (\<forall>k. (\<forall>l p. l < j \<and> p \<in> set params \<longrightarrow> k \<noteq> norm1_key l p \<and> k \<noteq> norm2_key l p) \<longrightarrow>
        map_of d' k = map_of d k)"
  using assms
proof (induction j arbitrary: d)
  case 0
  then show ?case by simp
next
  case (Suc j)
  let ?m = "map_of d"
  obtain w b where wb: "?m (layers_key (int j) ''.norm1'' @ ''.weight'') = Some w"
      "?m (layers_key (int j) ''.norm1'' @ ''.bias'') = Some b"
    using Suc.prems(1)[rule_format, of j "''.weight''"] Suc.prems(1)[rule_format, of j "''.bias''"]
    by (auto simp: norm1_key_def params_def)
  obtain d1 where d1: "move_norm (layers_key (int j) ''.norm1'') (layers_key (int j) ''.norm2'') d = Inr d1"
      "map_of d1 = move_map (layers_key (int j) ''.norm1'') (layers_key (int j) ''.norm2'') ?m"
      "distinct (map fst d) \<longrightarrow> distinct (map fst d1)"
    using move_norm_present[OF wb] by blast
  have m1: "\<And>k. map_of d1 k =
     (if k = norm2_key j ''.bias'' then ?m (norm1_key j ''.bias'')
      else if k = norm2_key j ''.weight'' then ?m (norm1_key j ''.weight'')
      else if k = norm1_key j ''.weight'' \<or> k = norm1_key j ''.bias'' then None
      else ?m k)"
    unfolding d1(2) by (rule move_map_norm1_norm2)
  show ?case
  proof (cases "j = 0")
    case True
    have r: "reindex_loop (Suc j) d = Inr d1"
      using d1(1) True by simp
    show ?thesis
      unfolding r using d1(3) True
      by (auto simp: m1 params_cases)
  next
    case False
    then have j: "0 < j" by simp
    have pres: "map_of d1 (norm2_key (j - 1) ''.weight'') \<noteq> None"
        "map_of d1 (norm2_key (j - 1) ''.bias'') \<noteq> None"
      using Suc.prems(2)[rule_format, of "j - 1" "''.weight''"]
        Suc.prems(2)[rule_format, of "j - 1" "''.bias''"] j
      by (auto simp: m1 params_def)
    have src: "layers_key (int j - 1) ''.norm2'' @ p = norm2_key (j - 1) p" for p
      using j by (simp add: norm2_key_def of_nat_diff)
    obtain w2 b2 where wb2: "map_of d1 (layers_key (int j - 1) ''.norm2'' @ ''.weight'') = Some w2"
      "map_of d1 (layers_key (int j - 1) ''.norm2'' @ ''.bias'') = Some b2"
      using pres unfolding src by auto
    obtain d2 where d2: "move_norm (layers_key (int j - 1) ''.norm2'') (layers_key (int j) ''.norm1'') d1 = Inr d2"
      "map_of d2 = move_map (layers_key (int j - 1) ''.norm2'') (layers_key (int j) ''.norm1'') (map_of d1)"
      "distinct (map fst d1) \<longrightarrow> distinct (map fst d2)"
      using move_norm_present[OF wb2] by blast
    have m2: "\<And>k. map_of d2 k =
     (if k = norm1_key j ''.bias'' then map_of d1 (norm2_key (j - 1) ''.bias'')
      else if k = norm1_key j ''.weight'' then map_of d1 (norm2_key (j - 1) ''.weight'')
      else if k = norm2_key (j - 1) ''.weight'' \<or> k = norm2_key (j - 1) ''.bias'' then None
      else map_of d1 k)"
      unfolding d2(2) using j by (rule move_map_norm2_norm1)
    have r: "reindex_loop (Suc j) d = reindex_loop j d2"
      using d1(1) d2(1) j by simp
    have p1: "\<forall>l p. l < j \<and> p \<in> set params \<longrightarrow> map_of d2 (norm1_key l p) \<noteq> None"
      using Suc.prems(1) by (auto simp: m2 m1 params_cases)
    have p2: "\<forall>l p. Suc l < j \<and> p \<in> set params \<longrightarrow> map_of d2 (norm2_key l p) \<noteq> None"
      using Suc.prems(2) by (auto simp: m2 m1 params_cases)
    obtain d' where d': "reindex_loop j d2 = Inr d'"
      "distinct (map fst d2) \<longrightarrow> distinct (map fst d')"
      "\<And>l p. l < j \<Longrightarrow> p \<in> set params \<Longrightarrow> map_of d' (norm2_key l p) = map_of d2 (norm1_key l p)"
      "\<And>l p. 0 < l \<Longrightarrow> l < j \<Longrightarrow> p \<in> set params \<Longrightarrow>
        map_of d' (norm1_key l p) = map_of d2 (norm2_key (l - 1) p)"
      "\<And>p. p \<in> set params \<Longrightarrow> map_of d' (norm1_key 0 p) = None"
      "\<And>k. (\<forall>l p. l < j \<and> p \<in> set params \<longrightarrow> k \<noteq> norm1_key l p \<and> k \<noteq> norm2_key l p) \<Longrightarrow>
        map_of d' k = map_of d2 k"
      using Suc.IH[OF p1 p2] j by blast
    have c1: "map_of d' (norm2_key l p) = ?m (norm1_key l p)" if "l < Suc j" "p \<in> set params" for l p
    proof (cases "l = j")
      case True
      have "map_of d' (norm2_key j p) = map_of d2 (norm2_key j p)"
        by (rule d'(6)) auto
      then show ?thesis using True that(2) j by (auto simp: m2 m1 params_cases)
    next
      case False
      then have "l < j" using that(1) by simp
      then show ?thesis using d'(3)[of l p] that(2) by (auto simp: m2 m1 params_cases)
    qed
    have c2: "map_of d' (norm1_key l p) = ?m (norm2_key (l - 1) p)"
      if "0 < l" "l < Suc j" "p \<in> set params" for l p
    proof (cases "l = j")
      case True
      have "map_of d' (norm1_key j p) = map_of d2 (norm1_key j p)"
        by (rule d'(6)) auto
      then show ?thesis using True that(3) j by (auto simp: m2 m1 params_cases)
    next
      case False
      then have "l < j" using that(2) by simp
      then show ?thesis using d'(4)[of l p] that(1,3) by (auto simp: m2 m1 params_cases)
    qed
    have c4: "map_of d' k = ?m k"
      if "\<forall>l p. l < Suc j \<and> p \<in> set params \<longrightarrow> k \<noteq> norm1_key l p \<and> k \<noteq> norm2_key l p" for k
    proof -
      have "map_of d' k = map_of d2 k" using that by (intro d'(6)) auto
      moreover have "k \<noteq> norm1_key j ''.weight''" "k \<noteq> norm1_key j ''.bias''"
        "k \<noteq> norm2_key j ''.weight''" "k \<noteq> norm2_key j ''.bias''"
        "k \<noteq> norm2_key (j - 1) ''.weight''" "k \<noteq> norm2_key (j - 1) ''.bias''"
        using that j by (auto simp: params_cases)
      ultimately show ?thesis by (simp add: m2 m1)
    qed
    show ?thesis
      unfolding r using d'(1,2,5) d1(3) d2(3) c1 c2 c4 by auto
  qed
qed

lemma dict_contains_lookup: "dict_contains d k \<longleftrightarrow> map_of d k \<noteq> None"
  by (simp add: dict_contains_def dict_keys_def map_of_eq_None_iff)

lemma move_map_to_ln_f:
  "0 < L \<Longrightarrow>
   move_map (layers_key (int L - 1) ''.norm2'') ''backbone.ln_f'' m k =
     (if k = ''backbone.ln_f.bias'' then m (norm2_key (L - 1) ''.bias'')
      else if k = ''backbone.ln_f.weight'' then m (norm2_key (L - 1) ''.weight'')
      else if k = norm2_key (L - 1) ''.weight'' \<or> k = norm2_key (L - 1) ''.bias'' then None
      else m k)"
  by (simp add: move_map_apply norm2_key_def of_nat_diff)

lemma move_map_from_ln_0:
  "move_map ''backbone.ln_0'' ''h3.blocks.0.norm1'' m k =
     (if k = ''h3.blocks.0.norm1.bias'' then m ''backbone.ln_0.bias''
      else if k = ''h3.blocks.0.norm1.weight'' then m ''backbone.ln_0.weight''
      else if k = ''backbone.ln_0.weight'' \<or> k = ''backbone.ln_0.bias'' then None
      else m k)"
  by (simp add: move_map_apply)

lemma reindex_spec:
  fixes d :: "'v state_dict"
  assumes L: "0 < L" and wf: "legacy_layout L d"
  shows "\<exists>d'. reindex (int L) d = Inr d' \<and>
     (distinct (map fst d) \<longrightarrow> distinct (map fst d')) \<and>
     (\<forall>p \<in> set params. map_of d' (''backbone.ln_f'' @ p) = map_of d (norm2_key (L - 1) p)) \<and>
     (\<forall>l p. l < L \<and> p \<in> set params \<longrightarrow> map_of d' (norm2_key l p) = map_of d (norm1_key l p)) \<and>
     (\<forall>l p. 0 < l \<and> l < L \<and> p \<in> set params \<longrightarrow>
        map_of d' (norm1_key l p) = map_of d (norm2_key (l - 1) p)) \<and>
     (\<forall>p \<in> set params. map_of d' (''h3.blocks.0.norm1'' @ p) = map_of d (''backbone.ln_0'' @ p)) \<and>
     (\<forall>p \<in> set params. map_of d' (norm1_key 0 p) = None \<and> map_of d' (''backbone.ln_0'' @ p) = None) \<and>
     (\<forall>k. (\<forall>l p. l < L \<and> p \<in> set params \<longrightarrow> k \<noteq> norm1_key l p \<and> k \<noteq> norm2_key l p) \<and>
          (\<forall>p \<in> set params. k \<noteq> ''backbone.ln_f'' @ p \<and> k \<noteq> ''backbone.ln_0'' @ p \<and>
             k \<noteq> ''h3.blocks.0.norm1'' @ p) \<longrightarrow>
        map_of d' k = map_of d k)"
proof -
  let ?m = "map_of d"
  have sent: "?m ''backbone.ln_0.weight'' \<noteq> None" "?m ''backbone.ln_0.bias'' \<noteq> None"
    using wf by (auto simp: legacy_layout_def dict_contains_lookup)
  have n1: "\<And>l p. l < L \<Longrightarrow> p \<in> set params \<Longrightarrow> ?m (norm1_key l p) \<noteq> None"
    and n2: "\<And>l p. l < L \<Longrightarrow> p \<in> set params \<Longrightarrow> ?m (norm2_key l p) \<noteq> None"
    using wf by (auto simp: legacy_layout_def dict_contains_lookup)
  have src: "layers_key (int L - 1) ''.norm2'' @ p = norm2_key (L - 1) p" for p
    using L by (simp add: norm2_key_def of_nat_diff)
  obtain w b where wb: "?m (layers_key (int L - 1) ''.norm2'' @ ''.weight'') = Some w"
      "?m (layers_key (int L - 1) ''.norm2'' @ ''.bias'') = Some b"
    using n2[of "L - 1" "''.weight''"] n2[of "L - 1" "''.bias''"] L unfolding src
    by (auto simp: params_def)
  obtain d1 where d1: "move_norm (layers_key (int L - 1) ''.norm2'') ''backbone.ln_f'' d = Inr d1"
      "map_of d1 = move_map (layers_key (int L - 1) ''.norm2'') ''backbone.ln_f'' ?m"
      "distinct (map fst d) \<longrightarrow> distinct (map fst d1)"
    using move_norm_present[OF wb] by blast
  have m1: "\<And>k. map_of d1 k =
     (if k = ''backbone.ln_f.bias'' then ?m (norm2_key (L - 1) ''.bias'')
      else if k = ''backbone.ln_f.weight'' then ?m (norm2_key (L - 1) ''.weight'')
      else if k = norm2_key (L - 1) ''.weight'' \<or> k = norm2_key (L - 1) ''.bias'' then None
      else ?m k)"
    unfolding d1(2) using L by (rule move_map_to_ln_f)
  have p1: "\<forall>l p. l < L \<and> p \<in> set params \<longrightarrow> map_of d1 (norm1_key l p) \<noteq> None"
    using n1 by (auto simp: m1 params_cases)
  have p2: "\<forall>l p. Suc l < L \<and> p \<in> set params \<longrightarrow> map_of d1 (norm2_key l p) \<noteq> None"
    using n2 by (auto simp: m1 params_cases)
  obtain d2 where d2_run: "reindex_loop L d1 = Inr d2"
    and d2_dist: "distinct (map fst d1) \<longrightarrow> distinct (map fst d2)"
    and d2_n2: "\<forall>l p. l < L \<and> p \<in> set params \<longrightarrow>
        map_of d2 (norm2_key l p) = map_of d1 (norm1_key l p)"
    and d2_n1: "\<forall>l p. 0 < l \<and> l < L \<and> p \<in> set params \<longrightarrow>
        map_of d2 (norm1_key l p) = map_of d1 (norm2_key (l - 1) p)"
    and d2_first: "\<forall>p. 0 < L \<and> p \<in> set params \<longrightarrow> map_of d2 (norm1_key 0 p) = None"
    and d2_frame: "\<forall>k. (\<forall>l p. l < L \<and> p \<in> set params \<longrightarrow>
          k \<noteq> norm1_key l p \<and> k \<noteq> norm2_key l p) \<longrightarrow>
        map_of d2 k = map_of d1 k"
    using reindex_loop_spec[OF p1 p2] by (elim exE conjE)
  note d2 = d2_run d2_dist d2_n2[rule_format, OF conjI] d2_n1[rule_format, OF conjI[OF _ conjI]]
    d2_first[rule_format, OF conjI[OF L]] d2_frame[rule_format]
  have fr2: "map_of d2 ''backbone.ln_0.weight'' = ?m ''backbone.ln_0.weight''"
    "map_of d2 ''backbone.ln_0.bias'' = ?m ''backbone.ln_0.bias''"
    "map_of d2 ''backbone.ln_f.weight'' = ?m (norm2_key (L - 1) ''.weight'')"
    "map_of d2 ''backbone.ln_f.bias'' = ?m (norm2_key (L - 1) ''.bias'')"
    using d2(6)[of "''backbone.ln_0.weight''"] d2(6)[of "''backbone.ln_0.bias''"]
      d2(6)[of "''backbone.ln_f.weight''"] d2(6)[of "''backbone.ln_f.bias''"]
    by (simp_all add: m1)
  obtain w0 b0 where wb0: "map_of d2 (''backbone.ln_0'' @ ''.weight'') = Some w0"
      "map_of d2 (''backbone.ln_0'' @ ''.bias'') = Some b0"
    using sent fr2 by auto
  obtain d3 where d3: "move_norm ''backbone.ln_0'' ''h3.blocks.0.norm1'' d2 = Inr d3"
      "map_of d3 = move_map ''backbone.ln_0'' ''h3.blocks.0.norm1'' (map_of d2)"
      "distinct (map fst d2) \<longrightarrow> distinct (map fst d3)"
    using move_norm_present[OF wb0] by blast
  have m3: "\<And>k. map_of d3 k =
     (if k = ''h3.blocks.0.norm1.bias'' then map_of d2 ''backbone.ln_0.bias''
      else if k = ''h3.blocks.0.norm1.weight'' then map_of d2 ''backbone.ln_0.weight''
      else if k = ''backbone.ln_0.weight'' \<or> k = ''backbone.ln_0.bias'' then None
      else map_of d2 k)"
    unfolding d3(2) by (rule move_map_from_ln_0)
  have r: "reindex (int L) d = Inr d3"
    using wf d1(1) d2(1) d3(1) by (simp add: reindex_def legacy_layout_def)
  have c1: "\<forall>p \<in> set params. map_of d3 (''backbone.ln_f'' @ p) = ?m (norm2_key (L - 1) p)"
    by (simp add: params_def m3 fr2)
  have c2: "map_of d3 (norm2_key l p) = ?m (norm1_key l p)" if "l < L" "p \<in> set params" for l p
    using that d2(3)[OF that] by (auto simp: m3 m1 params_cases)
  have c3: "map_of d3 (norm1_key l p) = ?m (norm2_key (l - 1) p)"
    if "0 < l" "l < L" "p \<in> set params" for l p
    using that d2(4)[OF that] by (auto simp: m3 m1 params_cases)
  have c4: "\<forall>p \<in> set params. map_of d3 (''h3.blocks.0.norm1'' @ p) = ?m (''backbone.ln_0'' @ p)"
    by (simp add: params_def m3 fr2)
  have c5: "\<forall>p \<in> set params. map_of d3 (norm1_key 0 p) = None \<and> map_of d3 (''backbone.ln_0'' @ p) = None"
    using d2(5) by (auto simp: m3 params_cases)
  have c6: "map_of d3 k = ?m k"
    if "(\<forall>l p. l < L \<and> p \<in> set params \<longrightarrow> k \<noteq> norm1_key l p \<and> k \<noteq> norm2_key l p) \<and>
          (\<forall>p \<in> set params. k \<noteq> ''backbone.ln_f'' @ p \<and> k \<noteq> ''backbone.ln_0'' @ p \<and>
             k \<noteq> ''h3.blocks.0.norm1'' @ p)" for k
  proof -
    have a: "map_of d2 k = map_of d1 k" using that by (intro d2(6)) blast
    have b: "k \<noteq> ''backbone.ln_f.weight''" "k \<noteq> ''backbone.ln_f.bias''"
      "k \<noteq> ''backbone.ln_0.weight''" "k \<noteq> ''backbone.ln_0.bias''"
      "k \<noteq> ''h3.blocks.0.norm1.weight''" "k \<noteq> ''h3.blocks.0.norm1.bias''"
      using that by (auto simp: params_def)
    have c: "k \<noteq> norm2_key (L - 1) ''.weight''" "k \<noteq> norm2_key (L - 1) ''.bias''"
      using that L by (auto simp: params_cases)
    show ?thesis using a b c by (simp add: m3 m1)
  qed
  show ?thesis
    unfolding r using d1(3) d2(2) d3(3) c1 c2 c3 c4 c5 c6 by blast
qed

lemma str_int_small: "str_int 0 = ''0''" "str_int 1 = ''1''"
  by code_simp+

lemma norm_key_small:
  "norm1_key 0 p = ''backbone.layers.0.norm1'' @ p"
  "norm2_key 0 p = ''backbone.layers.0.norm2'' @ p"
  "norm1_key (Suc 0) p = ''backbone.layers.1.norm1'' @ p"
  "norm2_key (Suc 0) p = ''backbone.layers.1.norm2'' @ p"
  by (simp_all add: norm1_key_def norm2_key_def layers_key_def str_int_small)

text \<open>
  Claim C1, as stated, fails: a mapping with the sentinel key \<^verbatim>\<open>backbone.ln_0.weight\<close> and
  all four normalization keys of its one layer, but without \<^verbatim>\<open>backbone.ln_0.bias\<close>, makes the
  reindexer raise \<^verbatim>\<open>KeyError\<close> at the last pop instead of producing a mapping.
\<close>

theorem reindex_without_sentinel_bias:
  "listed_layout 1
     [(''backbone.ln_0.weight'', 0::nat),
      (''backbone.layers.0.norm1.weight'', 1), (''backbone.layers.0.norm1.bias'', 2),
      (''backbone.layers.0.norm2.weight'', 3), (''backbone.layers.0.norm2.bias'', 4)] \<and>
   reindex 1
     [(''backbone.ln_0.weight'', 0::nat),
      (''backbone.layers.0.norm1.weight'', 1), (''backbone.layers.0.norm1.bias'', 2),
      (''backbone.layers.0.norm2.weight'', 3), (''backbone.layers.0.norm2.bias'', 4)] =
     Inl (KeyError ''backbone.ln_0.bias'')"
  by (simp add: listed_layout_def params_def norm_key_small dict_contains_def dict_keys_def
      reindex_def move_norm_def dict_pop_def dict_set_def layers_key_def str_int_small)

lemma legacy_layout_lookup:
  assumes "legacy_layout L d"
  shows "\<forall>p \<in> set params. map_of d (''backbone.ln_0'' @ p) \<noteq> None"
    and "\<forall>l p. l < L \<and> p \<in> set params \<longrightarrow>
           map_of d (norm1_key l p) \<noteq> None \<and> map_of d (norm2_key l p) \<noteq> None"
  using assms by (auto simp: legacy_layout_def dict_contains_lookup params_def)

text \<open>
  Claim C1, amended: for every legacy mapping that contains both sentinel keys
  \<^verbatim>\<open>backbone.ln_0.weight\<close> and \<^verbatim>\<open>backbone.ln_0.bias\<close> and, for every layer index \<open>l < L\<close> (with
  \<open>L \<ge> 1\<close> layers), the weight and bias keys of \<open>norm1\<close> and \<open>norm2\<close>, the reindexing stage
  returns a mapping in which the final normalization holds the old \<open>norm2\<close> tensors of
  layer \<open>L - 1\<close>, \<open>norm2\<close> of layer \<open>l\<close> holds the old \<open>norm1\<close> of layer \<open>l\<close>, \<open>norm1\<close> of
  layer \<open>l > 0\<close> holds the old \<open>norm2\<close> of layer \<open>l - 1\<close>, and \<open>norm1\<close> of layer 0 (stored
  as \<^verbatim>\<open>h3.blocks.0.norm1\<close>) holds the old sentinel tensors. Only the keys change: the keys
  \<^verbatim>\<open>backbone.ln_0.*\<close> and \<^verbatim>\<open>backbone.layers.0.norm1.*\<close> are no longer in the mapping, every
  other entry keeps its tensor under its key, and unique keys stay unique. Together the
  conjuncts give the tensor, or the absence, of every key of the result.
\<close>

theorem reindex_moves_norms:
  fixes d :: "'v state_dict"
  assumes "0 < L" "legacy_layout L d"
  shows "\<exists>d'. reindex (int L) d = Inr d' \<and>
     (distinct (dict_keys d) \<longrightarrow> distinct (dict_keys d')) \<and>
     (\<forall>p \<in> set params. map_of d' (''backbone.ln_f'' @ p) = map_of d (norm2_key (L - 1) p) \<and>
        map_of d' (''backbone.ln_f'' @ p) \<noteq> None) \<and>
     (\<forall>l p. l < L \<and> p \<in> set params \<longrightarrow>
        map_of d' (norm2_key l p) = map_of d (norm1_key l p) \<and>
        map_of d' (norm2_key l p) \<noteq> None) \<and>
     (\<forall>l p. 0 < l \<and> l < L \<and> p \<in> set params \<longrightarrow>
        map_of d' (norm1_key l p) = map_of d (norm2_key (l - 1) p) \<and>
        map_of d' (norm1_key l p) \<noteq> None) \<and>
     (\<forall>p \<in> set params. map_of d' (''h3.blocks.0.norm1'' @ p) = map_of d (''backbone.ln_0'' @ p) \<and>
        map_of d' (''h3.blocks.0.norm1'' @ p) \<noteq> None) \<and>
     (\<forall>p \<in> set params. map_of d' (norm1_key 0 p) = None \<and>
        map_of d' (''backbone.ln_0'' @ p) = None) \<and>
     (\<forall>k. (\<forall>l p. l < L \<and> p \<in> set params \<longrightarrow> k \<noteq> norm1_key l p \<and> k \<noteq> norm2_key l p) \<and>
          (\<forall>p \<in> set params. k \<noteq> ''backbone.ln_f'' @ p \<and> k \<noteq> ''backbone.ln_0'' @ p \<and>
             k \<noteq> ''h3.blocks.0.norm1'' @ p) \<longrightarrow>
        map_of d' k = map_of d k)"
proof -
  obtain d' where run: "reindex (int L) d = Inr d'"
    and dist: "distinct (map fst d) \<longrightarrow> distinct (map fst d')"
    and f: "\<forall>p \<in> set params. map_of d' (''backbone.ln_f'' @ p) = map_of d (norm2_key (L - 1) p)"
    and n2: "\<forall>l p. l < L \<and> p \<in> set params \<longrightarrow> map_of d' (norm2_key l p) = map_of d (norm1_key l p)"
    and n1: "\<forall>l p. 0 < l \<and> l < L \<and> p \<in> set params \<longrightarrow>
        map_of d' (norm1_key l p) = map_of d (norm2_key (l - 1) p)"
    and t: "\<forall>p \<in> set params. map_of d' (''h3.blocks.0.norm1'' @ p) = map_of d (''backbone.ln_0'' @ p)"
    and z: "\<forall>p \<in> set params. map_of d' (norm1_key 0 p) = None \<and> map_of d' (''backbone.ln_0'' @ p) = None"
    and fr: "\<forall>k. (\<forall>l p. l < L \<and> p \<in> set params \<longrightarrow> k \<noteq> norm1_key l p \<and> k \<noteq> norm2_key l p) \<and>
          (\<forall>p \<in> set params. k \<noteq> ''backbone.ln_f'' @ p \<and> k \<noteq> ''backbone.ln_0'' @ p \<and>
             k \<noteq> ''h3.blocks.0.norm1'' @ p) \<longrightarrow>
        map_of d' k = map_of d k"
    using reindex_spec[OF assms] by (elim exE conjE)
  note pres = legacy_layout_lookup[OF assms(2)]
  have dist': "distinct (dict_keys d) \<longrightarrow> distinct (dict_keys d')"
    using dist by (simp add: dict_keys_def)
  have f': "\<forall>p \<in> set params. map_of d' (''backbone.ln_f'' @ p) = map_of d (norm2_key (L - 1) p) \<and>
        map_of d' (''backbone.ln_f'' @ p) \<noteq> None"
    using f pres(2) assms(1) by simp
  have n2': "\<forall>l p. l < L \<and> p \<in> set params \<longrightarrow>
        map_of d' (norm2_key l p) = map_of d (norm1_key l p) \<and>
        map_of d' (norm2_key l p) \<noteq> None"
    using n2 pres(2) by simp
  have n1': "\<forall>l p. 0 < l \<and> l < L \<and> p \<in> set params \<longrightarrow>
        map_of d' (norm1_key l p) = map_of d (norm2_key (l - 1) p) \<and>
        map_of d' (norm1_key l p) \<noteq> None"
    using n1 pres(2) by (simp add: less_imp_diff_less)
  have t': "\<forall>p \<in> set params. map_of d' (''h3.blocks.0.norm1'' @ p) = map_of d (''backbone.ln_0'' @ p) \<and>
        map_of d' (''h3.blocks.0.norm1'' @ p) \<noteq> None"
    using t pres(1) by simp
  show ?thesis
    by (rule exI[of _ d'], intro conjI) (fact run dist' f' n2' n1' t' z fr)+
qed

theorem reindex_moves_norms_witness:
  "legacy_layout 2
     [(''backbone.ln_0.weight'', 0::nat), (''backbone.ln_0.bias'', 1),
      (''backbone.layers.0.norm1.weight'', 2), (''backbone.layers.0.norm1.bias'', 3),
      (''backbone.layers.0.norm2.weight'', 4), (''backbone.layers.0.norm2.bias'', 5),
      (''backbone.layers.1.norm1.weight'', 6), (''backbone.layers.1.norm1.bias'', 7),
      (''backbone.layers.1.norm2.weight'', 8), (''backbone.layers.1.norm2.bias'', 9),
      (''backbone.embeddings.word_embeddings.weight'', 10)] \<and>
   (\<exists>d'. reindex 2
     [(''backbone.ln_0.weight'', 0::nat), (''backbone.ln_0.bias'', 1),
      (''backbone.layers.0.norm1.weight'', 2), (''backbone.layers.0.norm1.bias'', 3),
      (''backbone.layers.0.norm2.weight'', 4), (''backbone.layers.0.norm2.bias'', 5),
      (''backbone.layers.1.norm1.weight'', 6), (''backbone.layers.1.norm1.bias'', 7),
      (''backbone.layers.1.norm2.weight'', 8), (''backbone.layers.1.norm2.bias'', 9),
      (''backbone.embeddings.word_embeddings.weight'', 10)] = Inr d' \<and>
      distinct (dict_keys d') \<and>
      map_of d' ''backbone.ln_f.weight'' = Some 8 \<and>
      map_of d' ''backbone.ln_f.bias'' = Some 9 \<and>
      map_of d' ''backbone.layers.1.norm2.weight'' = Some 6 \<and>
      map_of d' ''backbone.layers.1.norm1.weight'' = Some 4 \<and>
      map_of d' ''backbone.layers.0.norm2.weight'' = Some 2 \<and>
      map_of d' ''h3.blocks.0.norm1.weight'' = Some 0 \<and>
      map_of d' ''h3.blocks.0.norm1.bias'' = Some 1 \<and>
      map_of d' ''backbone.layers.0.norm1.weight'' = None \<and>
      map_of d' ''backbone.ln_0.weight'' = None \<and>
      map_of d' ''backbone.ln_0.bias'' = None \<and>
      map_of d' ''backbone.embeddings.word_embeddings.weight'' = Some 10)"
proof -
  let ?d = "[(''backbone.ln_0.weight'', 0::nat), (''backbone.ln_0.bias'', 1),
      (''backbone.layers.0.norm1.weight'', 2), (''backbone.layers.0.norm1.bias'', 3),
      (''backbone.layers.0.norm2.weight'', 4), (''backbone.layers.0.norm2.bias'', 5),
      (''backbone.layers.1.norm1.weight'', 6), (''backbone.layers.1.norm1.bias'', 7),
      (''backbone.layers.1.norm2.weight'', 8), (''backbone.layers.1.norm2.bias'', 9),
      (''backbone.embeddings.word_embeddings.weight'', 10)]"
  have up: "[0..<2] = [0, Suc 0]" by (simp add: numeral_2_eq_2)
  have wf: "legacy_layout 2 ?d"
    by (simp add: legacy_layout_def up params_def norm_key_small dict_contains_def dict_keys_def)
  have pos: "0 < (2::nat)" by simp
  have dd: "distinct (dict_keys ?d)" by (simp add: dict_keys_def)
  obtain d' where run: "reindex (int 2) ?d = Inr d'"
    and dist: "distinct (dict_keys ?d) \<longrightarrow> distinct (dict_keys d')"
    and f: "\<forall>p \<in> set params. map_of d' (''backbone.ln_f'' @ p) = map_of ?d (norm2_key (2 - 1) p) \<and>
        map_of d' (''backbone.ln_f'' @ p) \<noteq> None"
    and n2: "\<forall>l p. l < 2 \<and> p \<in> set params \<longrightarrow>
        map_of d' (norm2_key l p) = map_of ?d (norm1_key l p) \<and>
        map_of d' (norm2_key l p) \<noteq> None"
    and n1: "\<forall>l p. 0 < l \<and> l < 2 \<and> p \<in> set params \<longrightarrow>
        map_of d' (norm1_key l p) = map_of ?d (norm2_key (l - 1) p) \<and>
        map_of d' (norm1_key l p) \<noteq> None"
    and t: "\<forall>p \<in> set params. map_of d' (''h3.blocks.0.norm1'' @ p) = map_of ?d (''backbone.ln_0'' @ p) \<and>
        map_of d' (''h3.blocks.0.norm1'' @ p) \<noteq> None"
    and z: "\<forall>p \<in> set params. map_of d' (norm1_key 0 p) = None \<and>
        map_of d' (''backbone.ln_0'' @ p) = None"
    and fr: "\<forall>k. (\<forall>l p. l < 2 \<and> p \<in> set params \<longrightarrow> k \<noteq> norm1_key l p \<and> k \<noteq> norm2_key l p) \<and>
          (\<forall>p \<in> set params. k \<noteq> ''backbone.ln_f'' @ p \<and> k \<noteq> ''backbone.ln_0'' @ p \<and>
             k \<noteq> ''h3.blocks.0.norm1'' @ p) \<longrightarrow>
        map_of d' k = map_of ?d k"
    using reindex_moves_norms[OF pos wf] by (elim exE conjE)
  have run': "reindex 2 ?d = Inr d'" using run by simp
  have d1: "distinct (dict_keys d')" using dist dd by simp
  have a: "map_of d' ''backbone.ln_f.weight'' = Some 8" "map_of d' ''backbone.ln_f.bias'' = Some 9"
    using f by (simp_all add: params_def norm_key_small)
  have b: "map_of d' ''backbone.layers.1.norm2.weight'' = Some 6"
    using n2[rule_format, of "Suc 0" "''.weight''"] by (simp add: params_def norm_key_small)
  have c: "map_of d' ''backbone.layers.1.norm1.weight'' = Some 4"
    using n1[rule_format, of "Suc 0" "''.weight''"] by (simp add: params_def norm_key_small)
  have e: "map_of d' ''backbone.layers.0.norm2.weight'' = Some 2"
    using n2[rule_format, of 0 "''.weight''"] by (simp add: params_def norm_key_small)
  have g: "map_of d' ''h3.blocks.0.norm1.weight'' = Some 0" "map_of d' ''h3.blocks.0.norm1.bias'' = Some 1"
    using t by (simp_all add: params_def)
  have h: "map_of d' ''backbone.layers.0.norm1.weight'' = None"
    "map_of d' ''backbone.ln_0.weight'' = None" "map_of d' ''backbone.ln_0.bias'' = None"
    using z by (simp_all add: params_def norm_key_small)
  have other: "\<forall>l p. l < 2 \<and> p \<in> set params \<longrightarrow>
      ''backbone.embeddings.word_embeddings.weight'' \<noteq> norm1_key l p \<and>
      ''backbone.embeddings.word_embeddings.weight'' \<noteq> norm2_key l p"
    by (simp add: norm1_key_def norm2_key_def layers_key_def)
  have i: "map_of d' ''backbone.embeddings.word_embeddings.weight'' = Some 10"
    using fr[rule_format, of "''backbone.embeddings.word_embeddings.weight''"] other
    by (simp add: params_def)
  have ex: "\<exists>d'. reindex 2 ?d = Inr d' \<and>
      distinct (dict_keys d') \<and>
      map_of d' ''backbone.ln_f.weight'' = Some 8 \<and>
      map_of d' ''backbone.ln_f.bias'' = Some 9 \<and>
      map_of d' ''backbone.layers.1.norm2.weight'' = Some 6 \<and>
      map_of d' ''backbone.layers.1.norm1.weight'' = Some 4 \<and>
      map_of d' ''backbone.layers.0.norm2.weight'' = Some 2 \<and>
      map_of d' ''h3.blocks.0.norm1.weight'' = Some 0 \<and>
      map_of d' ''h3.blocks.0.norm1.bias'' = Some 1 \<and>
      map_of d' ''backbone.layers.0.norm1.weight'' = None \<and>
      map_of d' ''backbone.ln_0.weight'' = None \<and>
      map_of d' ''backbone.ln_0.bias'' = None \<and>
      map_of d' ''backbone.embeddings.word_embeddings.weight'' = Some 10"
    by (rule exI[of _ d'], intro conjI) (fact run' d1 a b c e g h i)+
  show ?thesis by (rule conjI[OF wf ex])
qed

subsection \<open>The reindexer as a bijection on normalization keys\<close>

lemma mem_legacy_keys:
  "k \<in> set (legacy_keys L) \<longleftrightarrow>
     (\<exists>p \<in> set params. k = ''backbone.ln_0'' @ p) \<or>
     (\<exists>l p. l < L \<and> p \<in> set params \<and> (k = norm1_key l p \<or> k = norm2_key l p))"
  by (auto simp: legacy_keys_def)

lemma mem_reindexed_keys:
  "k \<in> set (reindexed_keys L) \<longleftrightarrow>
     (\<exists>p \<in> set params. k = ''backbone.ln_f'' @ p \<or> k = ''h3.blocks.0.norm1'' @ p) \<or>
     (\<exists>l p. l < L \<and> p \<in> set params \<and> k = norm2_key l p) \<or>
     (\<exists>l p. 0 < l \<and> l < L \<and> p \<in> set params \<and> k = norm1_key l p)"
  by (auto simp: reindexed_keys_def)

lemma distinct_layer_keys:
  assumes "\<And>l p l' p'. K l p = K l' p' \<longleftrightarrow> l = l' \<and> p = p'"
  shows "distinct (concat (map (\<lambda>l. map (K l) params) [a..<b]))"
proof (induction b)
  case 0
  then show ?case by simp
next
  case (Suc b)
  show ?case
  proof (cases "a \<le> b")
    case True
    have "distinct (map (K b) params)"
      using assms by (simp add: params_def)
    then show ?thesis using Suc True assms by (auto simp: upt_Suc_append)
  next
    case False
    then show ?thesis by simp
  qed
qed

lemma mem_source_keys_raw:
  "k \<in> set (source_keys L) \<longleftrightarrow>
     (\<exists>p \<in> set params. k = norm2_key (L - 1) p \<or> k = ''backbone.ln_0'' @ p) \<or>
     (\<exists>l p. l < L \<and> p \<in> set params \<and> k = norm1_key l p) \<or>
     (\<exists>l p. 0 < l \<and> l < L \<and> p \<in> set params \<and> k = norm2_key (l - 1) p)"
  by (auto simp: source_keys_def)

lemma norm2_sources:
  assumes "0 < L"
  shows "(\<exists>l. l < L \<and> k = norm2_key l p) \<longleftrightarrow>
     k = norm2_key (L - 1) p \<or> (\<exists>l. 0 < l \<and> l < L \<and> k = norm2_key (l - 1) p)"
proof
  assume "\<exists>l. l < L \<and> k = norm2_key l p"
  then obtain l where l: "l < L" "k = norm2_key l p" by blast
  show "k = norm2_key (L - 1) p \<or> (\<exists>l. 0 < l \<and> l < L \<and> k = norm2_key (l - 1) p)"
  proof (cases "l = L - 1")
    case True
    then show ?thesis using l by simp
  next
    case False
    then have "0 < Suc l \<and> Suc l < L \<and> k = norm2_key (Suc l - 1) p" using l by auto
    then show ?thesis by blast
  qed
next
  assume "k = norm2_key (L - 1) p \<or> (\<exists>l. 0 < l \<and> l < L \<and> k = norm2_key (l - 1) p)"
  then show "\<exists>l. l < L \<and> k = norm2_key l p"
  proof
    assume "k = norm2_key (L - 1) p"
    then have "L - 1 < L \<and> k = norm2_key (L - 1) p" using assms by simp
    then show ?thesis by blast
  next
    assume "\<exists>l. 0 < l \<and> l < L \<and> k = norm2_key (l - 1) p"
    then obtain l where "0 < l" "l < L" "k = norm2_key (l - 1) p" by blast
    then have "l - 1 < L \<and> k = norm2_key (l - 1) p" by simp
    then show ?thesis by blast
  qed
qed

lemma set_source_keys:
  assumes "0 < L"
  shows "set (source_keys L) = set (legacy_keys L)"
proof (rule set_eqI)
  fix k
  have "k \<in> set (legacy_keys L) \<longleftrightarrow>
     (\<exists>p \<in> set params. k = ''backbone.ln_0'' @ p) \<or>
     (\<exists>p \<in> set params. \<exists>l. l < L \<and> k = norm1_key l p) \<or>
     (\<exists>p \<in> set params. \<exists>l. l < L \<and> k = norm2_key l p)"
    unfolding mem_legacy_keys by blast
  also have "\<dots> \<longleftrightarrow>
     (\<exists>p \<in> set params. k = ''backbone.ln_0'' @ p) \<or>
     (\<exists>p \<in> set params. \<exists>l. l < L \<and> k = norm1_key l p) \<or>
     (\<exists>p \<in> set params. k = norm2_key (L - 1) p \<or>
        (\<exists>l. 0 < l \<and> l < L \<and> k = norm2_key (l - 1) p))"
    unfolding norm2_sources[OF assms] ..
  also have "\<dots> \<longleftrightarrow> k \<in> set (source_keys L)"
    unfolding mem_source_keys_raw by blast
  finally show "k \<in> set (source_keys L) \<longleftrightarrow> k \<in> set (legacy_keys L)" by simp
qed

lemma distinct_literal_keys:
  "distinct (map (\<lambda>p. ''backbone.ln_0'' @ p) params)"
  "distinct (map (\<lambda>p. ''backbone.ln_f'' @ p) params)"
  "distinct (map (\<lambda>p. ''h3.blocks.0.norm1'' @ p) params)"
  by (simp_all add: params_def)

lemma distinct_norm_keys:
  "distinct (concat (map (\<lambda>l. map (norm1_key l) params) [a..<b]))"
  "distinct (concat (map (\<lambda>l. map (norm2_key l) params) [a..<b]))"
  by (rule distinct_layer_keys, simp)+

lemma mem_norm_concat:
  "k \<in> set (concat (map (\<lambda>l. map (K l) params) [a..<b])) \<longleftrightarrow>
     (\<exists>l p. a \<le> l \<and> l < b \<and> p \<in> set params \<and> k = K l p)"
  by auto

lemma legacy_keys_Suc:
  "legacy_keys (Suc L) = legacy_keys L @ map (norm1_key L) params @ map (norm2_key L) params"
  by (simp add: legacy_keys_def)

lemma length_legacy_keys: "length (legacy_keys L) = 4 * L + 2"
proof (induction L)
  case 0
  then show ?case by (simp add: legacy_keys_def params_def)
next
  case (Suc L)
  then show ?case by (simp add: legacy_keys_Suc params_def)
qed

lemma distinct_legacy_keys: "distinct (legacy_keys L)"
proof (induction L)
  case 0
  then show ?case by (simp add: legacy_keys_def params_def)
next
  case (Suc L)
  have "distinct (map (norm1_key L) params @ map (norm2_key L) params)"
    by (simp add: params_def)
  moreover have "set (legacy_keys L) \<inter> set (map (norm1_key L) params @ map (norm2_key L) params) = {}"
    by (auto simp: mem_legacy_keys params_cases)
  ultimately show ?case using Suc unfolding legacy_keys_Suc by (simp only: distinct_append simp_thms)
qed

lemma length_layer_keys:
  "length (concat (map (\<lambda>l. map (K l) params) [a..<b])) = 2 * (b - a)"
proof (induction b)
  case 0
  then show ?case by simp
next
  case (Suc b)
  then show ?case by (cases "a \<le> b") (auto simp: upt_Suc_append params_def Suc_diff_le)
qed

lemma length_reindexed_keys: "0 < L \<Longrightarrow> length (reindexed_keys L) = 4 * L + 2"
  unfolding reindexed_keys_def by (simp add: length_layer_keys) (simp add: params_def)

lemma length_source_keys: "0 < L \<Longrightarrow> length (source_keys L) = 4 * L + 2"
  unfolding source_keys_def by (simp add: length_layer_keys) (simp add: params_def)

lemma distinct_reindexed_keys: "distinct (reindexed_keys L)"
proof -
  let ?A = "map (\<lambda>p. ''backbone.ln_f'' @ p) params"
  let ?B = "map (\<lambda>p. ''h3.blocks.0.norm1'' @ p) params"
  let ?C = "concat (map (\<lambda>l. map (norm2_key l) params) [0..<L])"
  let ?D = "concat (map (\<lambda>l. map (norm1_key l) params) [1..<L])"
  have d: "distinct ?A" "distinct ?B" "distinct ?C" "distinct ?D"
    by (simp_all only: distinct_literal_keys distinct_norm_keys)
  have mc: "\<And>k. k \<in> set ?C \<longleftrightarrow> (\<exists>l p. 0 \<le> l \<and> l < L \<and> p \<in> set params \<and> k = norm2_key l p)"
    by (rule mem_norm_concat)
  have md: "\<And>k. k \<in> set ?D \<longleftrightarrow> (\<exists>l p. 1 \<le> l \<and> l < L \<and> p \<in> set params \<and> k = norm1_key l p)"
    by (rule mem_norm_concat)
  have ab: "set ?A \<inter> set ?B = {}" by (simp add: params_def)
  have ac: "set ?A \<inter> set ?C = {}" unfolding disjoint_iff mc by (auto simp: params_cases)
  have ad: "set ?A \<inter> set ?D = {}" unfolding disjoint_iff md by (auto simp: params_cases)
  have bc: "set ?B \<inter> set ?C = {}" unfolding disjoint_iff mc by (auto simp: params_cases)
  have bd: "set ?B \<inter> set ?D = {}" unfolding disjoint_iff md by (auto simp: params_cases)
  have cd: "set ?C \<inter> set ?D = {}" unfolding disjoint_iff mc md by auto
  show ?thesis
    unfolding reindexed_keys_def using d ab ac ad bc bd cd
    by (simp only: distinct_append set_append) blast
qed

lemma distinct_source_keys: "0 < L \<Longrightarrow> distinct (source_keys L)"
proof -
  assume L: "0 < L"
  have "card (set (source_keys L)) = card (set (legacy_keys L))"
    using set_source_keys[OF L] by simp
  also have "\<dots> = length (legacy_keys L)"
    using distinct_legacy_keys by (rule distinct_card)
  also have "\<dots> = length (source_keys L)"
    using L by (simp add: length_legacy_keys length_source_keys)
  finally show ?thesis by (rule card_distinct)
qed

lemma dict_keys_lookup: "k \<in> set (dict_keys d) \<longleftrightarrow> map_of d k \<noteq> None"
  by (simp add: dict_keys_def map_of_eq_None_iff)

lemma legacy_layout_keys:
  assumes "set (dict_keys d) = set (legacy_keys L)"
  shows "legacy_layout L d"
  unfolding legacy_layout_def dict_contains_def assms mem_legacy_keys
  by (auto simp: params_def)

lemma reindex_key_set:
  fixes d :: "'v state_dict"
  assumes L: "0 < L" and keys: "set (dict_keys d) = set (legacy_keys L)"
    and f: "\<forall>p \<in> set params. map_of d' (''backbone.ln_f'' @ p) = map_of d (norm2_key (L - 1) p)"
    and n2: "\<forall>l p. l < L \<and> p \<in> set params \<longrightarrow> map_of d' (norm2_key l p) = map_of d (norm1_key l p)"
    and n1: "\<forall>l p. 0 < l \<and> l < L \<and> p \<in> set params \<longrightarrow>
        map_of d' (norm1_key l p) = map_of d (norm2_key (l - 1) p)"
    and t: "\<forall>p \<in> set params. map_of d' (''h3.blocks.0.norm1'' @ p) = map_of d (''backbone.ln_0'' @ p)"
    and z: "\<forall>p \<in> set params. map_of d' (norm1_key 0 p) = None \<and> map_of d' (''backbone.ln_0'' @ p) = None"
    and fr: "\<forall>k. (\<forall>l p. l < L \<and> p \<in> set params \<longrightarrow> k \<noteq> norm1_key l p \<and> k \<noteq> norm2_key l p) \<and>
          (\<forall>p \<in> set params. k \<noteq> ''backbone.ln_f'' @ p \<and> k \<noteq> ''backbone.ln_0'' @ p \<and>
             k \<noteq> ''h3.blocks.0.norm1'' @ p) \<longrightarrow>
        map_of d' k = map_of d k"
  shows "set (dict_keys d') = set (reindexed_keys L)"
proof (rule set_eqI)
  fix k
  have dom: "\<And>k. map_of d k \<noteq> None \<longleftrightarrow> k \<in> set (legacy_keys L)"
    using keys dict_keys_lookup[of _ d] by simp
  have pres1: "\<And>l p. l < L \<Longrightarrow> p \<in> set params \<Longrightarrow> map_of d (norm1_key l p) \<noteq> None"
    and pres2: "\<And>l p. l < L \<Longrightarrow> p \<in> set params \<Longrightarrow> map_of d (norm2_key l p) \<noteq> None"
    and pres0: "\<And>p. p \<in> set params \<Longrightarrow> map_of d (''backbone.ln_0'' @ p) \<noteq> None"
    unfolding dom mem_legacy_keys by blast+
  consider
      (other) "(\<forall>l p. l < L \<and> p \<in> set params \<longrightarrow> k \<noteq> norm1_key l p \<and> k \<noteq> norm2_key l p) \<and>
          (\<forall>p \<in> set params. k \<noteq> ''backbone.ln_f'' @ p \<and> k \<noteq> ''backbone.ln_0'' @ p \<and>
             k \<noteq> ''h3.blocks.0.norm1'' @ p)"
    | (lnf) p where "p \<in> set params" "k = ''backbone.ln_f'' @ p"
    | (ln0) p where "p \<in> set params" "k = ''backbone.ln_0'' @ p"
    | (tgt) p where "p \<in> set params" "k = ''h3.blocks.0.norm1'' @ p"
    | (n2) l p where "l < L" "p \<in> set params" "k = norm2_key l p"
    | (n1z) p where "p \<in> set params" "k = norm1_key 0 p"
    | (n1) l p where "0 < l" "l < L" "p \<in> set params" "k = norm1_key l p"
    by (metis gr0I)
  then have "map_of d' k \<noteq> None \<longleftrightarrow> k \<in> set (reindexed_keys L)"
  proof cases
    case other
    then have "map_of d' k = map_of d k" using fr by blast
    moreover have "k \<notin> set (legacy_keys L)" unfolding mem_legacy_keys using other by blast
    moreover have "k \<notin> set (reindexed_keys L)" unfolding mem_reindexed_keys using other by blast
    ultimately show ?thesis using dom by simp
  next
    case lnf
    then have "map_of d' k \<noteq> None" using f pres2[of "L - 1" p] L by simp
    moreover have "k \<in> set (reindexed_keys L)" unfolding mem_reindexed_keys using lnf by blast
    ultimately show ?thesis by simp
  next
    case ln0
    then have "map_of d' k = None" using z by simp
    moreover have "k \<notin> set (reindexed_keys L)"
      unfolding mem_reindexed_keys using ln0 by (auto simp: params_cases)
    ultimately show ?thesis by simp
  next
    case tgt
    then have "map_of d' k \<noteq> None" using t pres0 by simp
    moreover have "k \<in> set (reindexed_keys L)" unfolding mem_reindexed_keys using tgt by blast
    ultimately show ?thesis by simp
  next
    case n2
    then have "map_of d' k \<noteq> None" using n2 pres1 assms(4) by simp
    moreover have "k \<in> set (reindexed_keys L)" unfolding mem_reindexed_keys using n2 by blast
    ultimately show ?thesis by simp
  next
    case n1z
    then have "map_of d' k = None" using z by simp
    moreover have "k \<notin> set (reindexed_keys L)"
      unfolding mem_reindexed_keys using n1z by (auto simp: params_cases)
    ultimately show ?thesis by simp
  next
    case n1
    then have "map_of d' k \<noteq> None" using assms(5) pres2[of "l - 1" p] by simp
    moreover have "k \<in> set (reindexed_keys L)" unfolding mem_reindexed_keys using n1 by blast
    ultimately show ?thesis by simp
  qed
  then show "k \<in> set (dict_keys d') \<longleftrightarrow> k \<in> set (reindexed_keys L)"
    by (simp add: dict_keys_lookup)
qed

lemma map_layer_keys_cong:
  assumes "\<And>l p. a \<le> l \<Longrightarrow> l < b \<Longrightarrow> p \<in> set params \<Longrightarrow> f (K l p) = g (K' l p)"
  shows "map f (concat (map (\<lambda>l. map (K l) params) [a..<b])) =
         map g (concat (map (\<lambda>l. map (K' l) params) [a..<b]))"
proof -
  have "map (map f) (map (\<lambda>l. map (K l) params) [a..<b]) =
        map (map g) (map (\<lambda>l. map (K' l) params) [a..<b])"
    using assms by simp
  then show ?thesis by (simp only: map_concat)
qed

lemma reindex_values_positionwise:
  fixes d :: "'v state_dict"
  assumes f: "\<forall>p \<in> set params. map_of d' (''backbone.ln_f'' @ p) = map_of d (norm2_key (L - 1) p)"
    and n2: "\<forall>l p. l < L \<and> p \<in> set params \<longrightarrow> map_of d' (norm2_key l p) = map_of d (norm1_key l p)"
    and n1: "\<forall>l p. 0 < l \<and> l < L \<and> p \<in> set params \<longrightarrow>
        map_of d' (norm1_key l p) = map_of d (norm2_key (l - 1) p)"
    and t: "\<forall>p \<in> set params. map_of d' (''h3.blocks.0.norm1'' @ p) = map_of d (''backbone.ln_0'' @ p)"
  shows "map (map_of d') (reindexed_keys L) = map (map_of d) (source_keys L)"
proof -
  have a: "map (map_of d') (map (\<lambda>p. ''backbone.ln_f'' @ p) params) =
      map (map_of d) (map (norm2_key (L - 1)) params)"
    using f by simp
  have b: "map (map_of d') (map (\<lambda>p. ''h3.blocks.0.norm1'' @ p) params) =
      map (map_of d) (map (\<lambda>p. ''backbone.ln_0'' @ p) params)"
    using t by simp
  have c: "map (map_of d') (concat (map (\<lambda>l. map (norm2_key l) params) [0..<L])) =
      map (map_of d) (concat (map (\<lambda>l. map (norm1_key l) params) [0..<L]))"
    using n2 by (intro map_layer_keys_cong) simp
  have e: "map (map_of d') (concat (map (\<lambda>l. map (norm1_key l) params) [1..<L])) =
      map (map_of d) (concat (map (\<lambda>l. map (norm2_key (l - 1)) params) [1..<L]))"
    using n1 by (intro map_layer_keys_cong) simp
  show ?thesis
    unfolding reindexed_keys_def source_keys_def map_append a b c e ..
qed

text \<open>
  Claim C2. Applied to a mapping whose keys are exactly the \<open>norm1\<close> and \<open>norm2\<close> weight and
  bias keys of every layer below \<open>L\<close> (\<open>L \<ge> 1\<close>) and the two sentinel keys, the reindexing
  stage returns a mapping whose keys are exactly the \<open>norm2\<close> keys of every layer, the
  \<open>norm1\<close> keys of every layer above 0, the two keys \<^verbatim>\<open>h3.blocks.0.norm1.*\<close> of layer 0 and
  the two final-normalization keys. Both mappings have \<open>4 L + 2\<close> entries with unique keys,
  and the new keys correspond one to one to the old keys: the \<open>i\<close>-th key of
  \<open>reindexed_keys\<close> holds what the \<open>i\<close>-th key of \<open>source_keys\<close> held, both lists without
  repetition, the second listing the keys of the input.
\<close>

theorem reindex_key_bijection:
  fixes d :: "'v state_dict"
  assumes "0 < L" "distinct (dict_keys d)" "set (dict_keys d) = set (legacy_keys L)"
  shows "\<exists>d'. reindex (int L) d = Inr d' \<and>
     distinct (dict_keys d') \<and> set (dict_keys d') = set (reindexed_keys L) \<and>
     length d' = length d \<and> length d = 4 * L + 2 \<and>
     distinct (reindexed_keys L) \<and> distinct (source_keys L) \<and>
     set (source_keys L) = set (dict_keys d) \<and>
     length (source_keys L) = length (reindexed_keys L) \<and>
     map (map_of d') (reindexed_keys L) = map (map_of d) (source_keys L)"
proof -
  have wf: "legacy_layout L d" using assms(3) by (rule legacy_layout_keys)
  obtain d' where run: "reindex (int L) d = Inr d'"
    and dist: "distinct (map fst d) \<longrightarrow> distinct (map fst d')"
    and f: "\<forall>p \<in> set params. map_of d' (''backbone.ln_f'' @ p) = map_of d (norm2_key (L - 1) p)"
    and n2: "\<forall>l p. l < L \<and> p \<in> set params \<longrightarrow> map_of d' (norm2_key l p) = map_of d (norm1_key l p)"
    and n1: "\<forall>l p. 0 < l \<and> l < L \<and> p \<in> set params \<longrightarrow>
        map_of d' (norm1_key l p) = map_of d (norm2_key (l - 1) p)"
    and t: "\<forall>p \<in> set params. map_of d' (''h3.blocks.0.norm1'' @ p) = map_of d (''backbone.ln_0'' @ p)"
    and z: "\<forall>p \<in> set params. map_of d' (norm1_key 0 p) = None \<and> map_of d' (''backbone.ln_0'' @ p) = None"
    and fr: "\<forall>k. (\<forall>l p. l < L \<and> p \<in> set params \<longrightarrow> k \<noteq> norm1_key l p \<and> k \<noteq> norm2_key l p) \<and>
          (\<forall>p \<in> set params. k \<noteq> ''backbone.ln_f'' @ p \<and> k \<noteq> ''backbone.ln_0'' @ p \<and>
             k \<noteq> ''h3.blocks.0.norm1'' @ p) \<longrightarrow>
        map_of d' k = map_of d k"
    using reindex_spec[OF assms(1) wf] by (elim exE conjE)
  have d1: "distinct (dict_keys d')" using dist assms(2) by (simp add: dict_keys_def)
  have ks: "set (dict_keys d') = set (reindexed_keys L)"
    using assms(1,3) f n2 n1 t z fr by (rule reindex_key_set)
  have len: "length d = 4 * L + 2"
  proof -
    have "length d = length (dict_keys d)" by (simp add: dict_keys_def)
    also have "\<dots> = card (set (legacy_keys L))"
      using distinct_card[OF assms(2)] assms(3) by simp
    also have "\<dots> = 4 * L + 2"
      using distinct_card[OF distinct_legacy_keys, of L] by (simp add: length_legacy_keys)
    finally show ?thesis .
  qed
  have len': "length d' = 4 * L + 2"
  proof -
    have "length d' = length (dict_keys d')" by (simp add: dict_keys_def)
    also have "\<dots> = card (set (reindexed_keys L))"
      using distinct_card[OF d1] ks by simp
    also have "\<dots> = 4 * L + 2"
      using distinct_card[OF distinct_reindexed_keys, of L] assms(1)
      by (simp add: length_reindexed_keys)
    finally show ?thesis .
  qed
  have src: "set (source_keys L) = set (dict_keys d)"
    using set_source_keys[OF assms(1)] assms(3) by simp
  have lens: "length (source_keys L) = length (reindexed_keys L)"
    using assms(1) by (simp add: length_source_keys length_reindexed_keys)
  have pos: "map (map_of d') (reindexed_keys L) = map (map_of d) (source_keys L)"
    using f n2 n1 t by (rule reindex_values_positionwise)
  show ?thesis
    using run d1 ks len len' distinct_reindexed_keys[of L] distinct_source_keys[OF assms(1)]
      src lens pos by simp
qed

theorem reindex_key_bijection_witness:
  "distinct (dict_keys
     [(''backbone.ln_0.weight'', 0::nat), (''backbone.ln_0.bias'', 1),
      (''backbone.layers.0.norm1.weight'', 2), (''backbone.layers.0.norm1.bias'', 3),
      (''backbone.layers.0.norm2.weight'', 4), (''backbone.layers.0.norm2.bias'', 5)]) \<and>
   set (dict_keys
     [(''backbone.ln_0.weight'', 0::nat), (''backbone.ln_0.bias'', 1),
      (''backbone.layers.0.norm1.weight'', 2), (''backbone.layers.0.norm1.bias'', 3),
      (''backbone.layers.0.norm2.weight'', 4), (''backbone.layers.0.norm2.bias'', 5)]) =
     set (legacy_keys 1) \<and>
   (\<exists>d'. reindex 1
     [(''backbone.ln_0.weight'', 0::nat), (''backbone.ln_0.bias'', 1),
      (''backbone.layers.0.norm1.weight'', 2), (''backbone.layers.0.norm1.bias'', 3),
      (''backbone.layers.0.norm2.weight'', 4), (''backbone.layers.0.norm2.bias'', 5)] = Inr d' \<and>
      length d' = 6 \<and>
      set (dict_keys d') =
        {''backbone.ln_f.weight'', ''backbone.ln_f.bias'',
         ''h3.blocks.0.norm1.weight'', ''h3.blocks.0.norm1.bias'',
         ''backbone.layers.0.norm2.weight'', ''backbone.layers.0.norm2.bias''} \<and>
      map (map_of d')
        [''backbone.ln_f.weight'', ''backbone.ln_f.bias'',
         ''h3.blocks.0.norm1.weight'', ''h3.blocks.0.norm1.bias'',
         ''backbone.layers.0.norm2.weight'', ''backbone.layers.0.norm2.bias''] =
        [Some 4, Some 5, Some 0, Some 1, Some 2, Some 3])"
proof -
  let ?d = "[(''backbone.ln_0.weight'', 0::nat), (''backbone.ln_0.bias'', 1),
      (''backbone.layers.0.norm1.weight'', 2), (''backbone.layers.0.norm1.bias'', 3),
      (''backbone.layers.0.norm2.weight'', 4), (''backbone.layers.0.norm2.bias'', 5)]"
  have lk: "legacy_keys 1 = [''backbone.ln_0.weight'', ''backbone.ln_0.bias'',
      ''backbone.layers.0.norm1.weight'', ''backbone.layers.0.norm1.bias'',
      ''backbone.layers.0.norm2.weight'', ''backbone.layers.0.norm2.bias'']"
    by (simp add: legacy_keys_def params_def norm_key_small)
  have rk: "reindexed_keys 1 = [''backbone.ln_f.weight'', ''backbone.ln_f.bias'',
         ''h3.blocks.0.norm1.weight'', ''h3.blocks.0.norm1.bias'',
         ''backbone.layers.0.norm2.weight'', ''backbone.layers.0.norm2.bias'']"
    by (simp add: reindexed_keys_def params_def norm_key_small)
  have sk: "source_keys 1 = [''backbone.layers.0.norm2.weight'', ''backbone.layers.0.norm2.bias'',
      ''backbone.ln_0.weight'', ''backbone.ln_0.bias'',
      ''backbone.layers.0.norm1.weight'', ''backbone.layers.0.norm1.bias'']"
    by (simp add: source_keys_def params_def norm_key_small)
  have h1: "0 < (1::nat)" by simp
  have h2: "distinct (dict_keys ?d)" by (simp add: dict_keys_def)
  have h3: "set (dict_keys ?d) = set (legacy_keys 1)"
    unfolding lk by (simp add: dict_keys_def)
  obtain d' where run: "reindex (int 1) ?d = Inr d'"
    and ks: "set (dict_keys d') = set (reindexed_keys 1)"
    and len: "length d' = length ?d"
    and pos: "map (map_of d') (reindexed_keys 1) = map (map_of ?d) (source_keys 1)"
    using reindex_key_bijection[OF h1 h2 h3] by blast
  have run': "reindex 1 ?d = Inr d'" using run by simp
  have len': "length d' = 6" using len by simp
  have ks': "set (dict_keys d') =
        {''backbone.ln_f.weight'', ''backbone.ln_f.bias'',
         ''h3.blocks.0.norm1.weight'', ''h3.blocks.0.norm1.bias'',
         ''backbone.layers.0.norm2.weight'', ''backbone.layers.0.norm2.bias''}"
    using ks unfolding rk by simp
  have pos': "map (map_of d')
        [''backbone.ln_f.weight'', ''backbone.ln_f.bias'',
         ''h3.blocks.0.norm1.weight'', ''h3.blocks.0.norm1.bias'',
         ''backbone.layers.0.norm2.weight'', ''backbone.layers.0.norm2.bias''] =
        [Some 4, Some 5, Some 0, Some 1, Some 2, Some 3]"
    using pos unfolding rk sk by simp
  have ex: "\<exists>d'. reindex 1 ?d = Inr d' \<and> length d' = 6 \<and>
      set (dict_keys d') =
        {''backbone.ln_f.weight'', ''backbone.ln_f.bias'',
         ''h3.blocks.0.norm1.weight'', ''h3.blocks.0.norm1.bias'',
         ''backbone.layers.0.norm2.weight'', ''backbone.layers.0.norm2.bias''} \<and>
      map (map_of d')
        [''backbone.ln_f.weight'', ''backbone.ln_f.bias'',
         ''h3.blocks.0.norm1.weight'', ''h3.blocks.0.norm1.bias'',
         ''backbone.layers.0.norm2.weight'', ''backbone.layers.0.norm2.bias''] =
        [Some 4, Some 5, Some 0, Some 1, Some 2, Some 3]"
    by (rule exI[of _ d'], intro conjI) (fact run' len' ks' pos')+
  show ?thesis by (rule conjI[OF h2 conjI[OF h3 ex]])
qed

subsection \<open>The sentinel tensors through reindexing and renaming\<close>

lemma contains_set: "contains s t \<Longrightarrow> set t \<subseteq> set s"
  unfolding contains_sublist by (rule set_mono_sublist)

lemma prefix_contains: "prefix t s \<Longrightarrow> contains s t"
  unfolding contains_sublist by (rule prefix_imp_sublist)

lemma replace_keeps_char:
  "old \<noteq> [] \<Longrightarrow> c \<in> set s \<Longrightarrow> c \<notin> set old \<Longrightarrow> c \<in> set (replace s old new)"
proof (induction s old new rule: replace.induct)
  case (1 old new)
  then show ?case by simp
next
  case (2 a cs old new)
  show ?case
  proof (cases "prefix old (a # cs)")
    case True
    then have "a # cs = old @ drop (length old) (a # cs)"
      by (metis append_eq_conv_conj prefixE)
    then have "c \<in> set (drop (length old) (a # cs))"
      using "2.prems"(2,3) by (metis Un_iff set_append)
    then have "c \<in> set (replace (drop (length old) (a # cs)) old new)"
      using "2.IH"(2) "2.prems" True by blast
    then show ?thesis
      unfolding replace_match[OF "2.prems"(1) True] by simp
  next
    case False
    have "c = a \<or> c \<in> set (replace cs old new)"
      using "2.IH"(3) "2.prems" False by auto
    then show ?thesis
      unfolding replace_nomatch[OF "2.prems"(1) False] by auto
  qed
qed

lemma replace_puts_new:
  "old \<noteq> [] \<Longrightarrow> contains s old \<Longrightarrow> contains (replace s old new) new"
proof (induction s old new rule: replace.induct)
  case (1 old new)
  then show ?case by simp
next
  case (2 a cs old new)
  show ?case
  proof (cases "prefix old (a # cs)")
    case True
    show ?thesis
      unfolding replace_match[OF "2.prems"(1) True] by (rule prefix_contains) simp
  next
    case False
    then have "contains cs old" using "2.prems"(2) by simp
    then have "contains (replace cs old new) new"
      using "2.IH"(3) "2.prems"(1) False by blast
    then show ?thesis
      unfolding replace_nomatch[OF "2.prems"(1) False] by simp
  qed
qed

lemma replace_absent:
  "old \<noteq> [] \<Longrightarrow> \<not> contains s old \<Longrightarrow> replace s old new = s"
proof (induction s old new rule: replace.induct)
  case (1 old new)
  then show ?case by simp
next
  case (2 a cs old new)
  have np: "\<not> prefix old (a # cs)" and nc: "\<not> contains cs old"
    using "2.prems"(2) by simp_all
  have "replace cs old new = cs" using "2.IH"(3) "2.prems"(1) np nc by blast
  then show ?case unfolding replace_nomatch[OF "2.prems"(1) np] by simp
qed

lemma replace_head_preimage:
  assumes old: "old \<noteq> []" and new: "new \<noteq> []"
    and c: "contains k old"
    and r: "replace k old new = new @ rest"
    and fresh: "\<not> contains rest new"
    and once: "\<not> contains (tl (new @ rest)) new"
  shows "k = old @ rest"
proof (cases k)
  case Nil
  then show ?thesis using c old by simp
next
  case (Cons a cs)
  show ?thesis
  proof (cases "prefix old k")
    case True
    have eq: "new @ replace (drop (length old) k) old new = new @ rest"
      using r unfolding replace_match[OF old True] .
    then have rr: "replace (drop (length old) k) old new = rest" by simp
    have "\<not> contains (drop (length old) k) old"
    proof
      assume "contains (drop (length old) k) old"
      then have "contains (replace (drop (length old) k) old new) new"
        using old by (rule replace_puts_new[rotated])
      then show False using rr fresh by simp
    qed
    then have "drop (length old) k = rest"
      using replace_absent[OF old, of "drop (length old) k" new] rr by simp
    moreover have "k = old @ drop (length old) k"
      using True by (metis append_eq_conv_conj prefixE)
    ultimately show ?thesis by simp
  next
    case False
    then have np: "\<not> prefix old (a # cs)" using Cons by simp
    have "contains cs old" using c np Cons by simp
    then have "contains (replace cs old new) new"
      using old by (rule replace_puts_new[rotated])
    moreover have "a # replace cs old new = new @ rest"
      using r Cons replace_nomatch[OF old np] by simp
    then have "replace cs old new = tl (new @ rest)"
      by (metis list.sel(3))
    ultimately show ?thesis using once by simp
  qed
qed

lemma rename_key_preimage_norm1:
  assumes sfx: "sfx = ''.0.norm1.weight'' \<or> sfx = ''.0.norm1.bias''"
    and r: "rename_key k = ''h3.blocks'' @ sfx"
  shows "k = ''h3.blocks'' @ sfx \<or> k = ''backbone.layers'' @ sfx"
proof -
  let ?T = "''h3.blocks'' @ sfx"
  have no_d: "CHR ''d'' \<notin> set ?T" and no_y: "CHR ''y'' \<notin> set ?T"
    using sfx by auto
  have fresh: "\<not> contains sfx ''h3.blocks''" and once: "\<not> contains (tl ?T) ''h3.blocks''"
    using sfx by auto
  have not_emb: "\<not> contains k ''backbone.embeddings''"
  proof
    assume e: "contains k ''backbone.embeddings''"
    then have "CHR ''d'' \<in> set k" using contains_set[OF e] by auto
    then have "CHR ''d'' \<in> set (replace k ''backbone'' ''h3'')"
      by (intro replace_keeps_char) simp_all
    then show False using rename_key_embeddings[OF e] r no_d by simp
  qed
  define k2 where "k2 = (if contains k ''backbone.layers''
                   then replace k ''backbone.layers'' ''h3.blocks'' else k)"
  define k3 where "k3 = (if contains k2 ''backbone.ln_f''
                   then replace k2 ''backbone.ln_f'' ''h3.final_layernorm'' else k2)"
  have k3: "rename_key k = k3"
    unfolding rename_key_def Let_def k2_def k3_def using not_emb by (simp only: if_False)
  have not_f: "\<not> contains k2 ''backbone.ln_f''"
  proof
    assume f: "contains k2 ''backbone.ln_f''"
    then have "contains (replace k2 ''backbone.ln_f'' ''h3.final_layernorm'') ''h3.final_layernorm''"
      by (intro replace_puts_new) simp_all
    then have "contains k3 ''h3.final_layernorm''" using f by (simp only: k3_def if_True)
    then have "CHR ''y'' \<in> set k3" using contains_set by fastforce
    then show False using k3 r no_y by simp
  qed
  then have k2: "k2 = ?T" using k3 r by (simp only: k3_def if_False)
  show ?thesis
  proof (cases "contains k ''backbone.layers''")
    case True
    then have eq: "replace k ''backbone.layers'' ''h3.blocks'' = ?T"
      using k2 by (simp only: k2_def if_True)
    have "k = ''backbone.layers'' @ sfx"
      by (rule replace_head_preimage[OF _ _ True eq fresh once]) simp_all
    then show ?thesis by simp
  next
    case False
    then have "k = ?T" using k2 by (simp only: k2_def if_False)
    then show ?thesis by simp
  qed
qed

lemma convert_loop_slot:
  assumes "distinct ks" "set ks \<subseteq> set (dict_keys cur)"
    "\<forall>k \<in> set ks. rename_key k = T \<longrightarrow> k = T" "rename_key T = T"
  shows "\<exists>d'. convert_loop ks cur = Inr d' \<and> map_of d' T = map_of cur T"
  using assms(1,2,3)
proof (induction ks arbitrary: cur)
  case Nil
  then show ?case by simp
next
  case (Cons k ks)
  have "k \<in> set (dict_keys cur)" using Cons.prems(2) by simp
  then obtain v where v: "map_of cur k = Some v"
    using dict_keys_lookup[of k cur] by auto
  let ?cur' = "dict_set (rename_key k) v (AList.delete k cur)"
  have step: "convert_loop (k # ks) cur = convert_loop ks ?cur'"
    using v by (simp add: dict_pop_def)
  have keys': "set (dict_keys ?cur') = insert (rename_key k) (set (dict_keys cur) - {k})"
    by (auto simp: dict_keys_def dict_set_def dom_update AList.delete_eq)
  have sub: "set ks \<subseteq> set (dict_keys ?cur')"
    using Cons.prems(1,2) unfolding keys' by auto
  have slot: "map_of ?cur' T = map_of cur T"
  proof (cases "rename_key k = T")
    case True
    then have "k = T" using Cons.prems(3) by simp
    then show ?thesis using v True by (simp add: dict_set_def update_conv')
  next
    case False
    then have "k \<noteq> T" using assms(4) by auto
    then show ?thesis using False by (simp add: dict_set_def update_conv' delete_conv')
  qed
  have "\<exists>d'. convert_loop ks ?cur' = Inr d' \<and> map_of d' T = map_of ?cur' T"
    using Cons.prems(1,3) sub by (intro Cons.IH) auto
  then show ?case unfolding step slot .
qed

lemma rename_key_target_fixed:
  "rename_key ''h3.blocks.0.norm1.weight'' = ''h3.blocks.0.norm1.weight''"
  "rename_key ''h3.blocks.0.norm1.bias'' = ''h3.blocks.0.norm1.bias''"
  by (simp_all add: rename_key_def)

lemma norm_key_backbone:
  "startswith (norm1_key l p) ''backbone.''" "startswith (norm2_key l p) ''backbone.''"
  by (simp_all add: startswith_def norm1_key_def norm2_key_def layers_key_def)

lemma convert_state_dict_slot:
  assumes "distinct (dict_keys d)" "rename_key T = T"
    "\<forall>k \<in> set (dict_keys d). rename_key k = T \<longrightarrow> k = T"
  shows "\<exists>d'. convert_state_dict d = Inr d' \<and> map_of d' T = map_of d T"
  unfolding convert_state_dict_def
  using assms(1) subset_refl assms(3,2) by (rule convert_loop_slot)

text \<open>
  Claim C9. On a legacy mapping (unique keys, both sentinel keys and the normalization
  keys of every layer below \<open>L \<ge> 1\<close>), after the reindexing stage the sentinel tensors are
  stored under the destination-style keys \<^verbatim>\<open>h3.blocks.0.norm1.weight\<close> and
  \<^verbatim>\<open>h3.blocks.0.norm1.bias\<close>, the source-style keys \<^verbatim>\<open>backbone.layers.0.norm1.*\<close> are absent, and
  all other reindexed normalization entries are present under keys that start with
  \<^verbatim>\<open>backbone.\<close>. \<open>rename_key\<close> maps the two destination-style keys to themselves, and the
  renaming pass that follows returns a mapping that still holds the sentinel tensors
  under these two keys.
\<close>

theorem sentinel_stored_as_layer0_norm1:
  fixes d :: "'v state_dict"
  assumes "0 < L" "distinct (dict_keys d)" "legacy_layout L d"
  shows "\<exists>d'. reindex (int L) d = Inr d' \<and>
     map_of d' ''h3.blocks.0.norm1.weight'' = map_of d ''backbone.ln_0.weight'' \<and>
     map_of d' ''h3.blocks.0.norm1.bias'' = map_of d ''backbone.ln_0.bias'' \<and>
     dict_contains d' ''h3.blocks.0.norm1.weight'' \<and>
     dict_contains d' ''h3.blocks.0.norm1.bias'' \<and>
     \<not> dict_contains d' ''backbone.layers.0.norm1.weight'' \<and>
     \<not> dict_contains d' ''backbone.layers.0.norm1.bias'' \<and>
     (\<forall>p \<in> set params. dict_contains d' (''backbone.ln_f'' @ p)) \<and>
     (\<forall>l p. l < L \<and> p \<in> set params \<longrightarrow>
        dict_contains d' (norm2_key l p) \<and> startswith (norm2_key l p) ''backbone.'') \<and>
     (\<forall>l p. 0 < l \<and> l < L \<and> p \<in> set params \<longrightarrow>
        dict_contains d' (norm1_key l p) \<and> startswith (norm1_key l p) ''backbone.'') \<and>
     rename_key ''h3.blocks.0.norm1.weight'' = ''h3.blocks.0.norm1.weight'' \<and>
     rename_key ''h3.blocks.0.norm1.bias'' = ''h3.blocks.0.norm1.bias'' \<and>
     (\<exists>d''. convert_state_dict d' = Inr d'' \<and>
        map_of d'' ''h3.blocks.0.norm1.weight'' = map_of d ''backbone.ln_0.weight'' \<and>
        map_of d'' ''h3.blocks.0.norm1.bias'' = map_of d ''backbone.ln_0.bias'')"
proof -
  obtain d' where run: "reindex (int L) d = Inr d'"
    and dist: "distinct (map fst d) \<longrightarrow> distinct (map fst d')"
    and f: "\<forall>p \<in> set params. map_of d' (''backbone.ln_f'' @ p) = map_of d (norm2_key (L - 1) p)"
    and n2: "\<forall>l p. l < L \<and> p \<in> set params \<longrightarrow> map_of d' (norm2_key l p) = map_of d (norm1_key l p)"
    and n1: "\<forall>l p. 0 < l \<and> l < L \<and> p \<in> set params \<longrightarrow>
        map_of d' (norm1_key l p) = map_of d (norm2_key (l - 1) p)"
    and t: "\<forall>p \<in> set params. map_of d' (''h3.blocks.0.norm1'' @ p) = map_of d (''backbone.ln_0'' @ p)"
    and z: "\<forall>p \<in> set params. map_of d' (norm1_key 0 p) = None \<and> map_of d' (''backbone.ln_0'' @ p) = None"
    and fr: "\<forall>k. (\<forall>l p. l < L \<and> p \<in> set params \<longrightarrow> k \<noteq> norm1_key l p \<and> k \<noteq> norm2_key l p) \<and>
          (\<forall>p \<in> set params. k \<noteq> ''backbone.ln_f'' @ p \<and> k \<noteq> ''backbone.ln_0'' @ p \<and>
             k \<noteq> ''h3.blocks.0.norm1'' @ p) \<longrightarrow>
        map_of d' k = map_of d k"
    using reindex_spec[OF assms(1,3)] by (elim exE conjE)
  note pres = legacy_layout_lookup[OF assms(3)]
  have d1: "distinct (dict_keys d')" using dist assms(2) by (simp add: dict_keys_def)
  have tw: "map_of d' ''h3.blocks.0.norm1.weight'' = map_of d ''backbone.ln_0.weight''"
    and tb: "map_of d' ''h3.blocks.0.norm1.bias'' = map_of d ''backbone.ln_0.bias''"
    using t by (simp_all add: params_def)
  have cw: "dict_contains d' ''h3.blocks.0.norm1.weight''"
    and cb: "dict_contains d' ''h3.blocks.0.norm1.bias''"
    using tw tb pres(1) by (simp_all add: dict_contains_lookup params_def)
  have gone: "\<not> dict_contains d' ''backbone.layers.0.norm1.weight''"
    "\<not> dict_contains d' ''backbone.layers.0.norm1.bias''"
    using z by (simp_all add: dict_contains_lookup params_def norm_key_small)
  have cf: "\<forall>p \<in> set params. dict_contains d' (''backbone.ln_f'' @ p)"
    using f pres(2) assms(1) by (simp add: dict_contains_lookup)
  have c2: "\<forall>l p. l < L \<and> p \<in> set params \<longrightarrow>
        dict_contains d' (norm2_key l p) \<and> startswith (norm2_key l p) ''backbone.''"
    using n2 pres(2) by (simp add: dict_contains_lookup norm_key_backbone)
  have c1: "\<forall>l p. 0 < l \<and> l < L \<and> p \<in> set params \<longrightarrow>
        dict_contains d' (norm1_key l p) \<and> startswith (norm1_key l p) ''backbone.''"
    using n1 pres(2) by (simp add: dict_contains_lookup norm_key_backbone less_imp_diff_less)
  have only_w: "\<forall>k \<in> set (dict_keys d'). rename_key k = ''h3.blocks.0.norm1.weight'' \<longrightarrow>
      k = ''h3.blocks.0.norm1.weight''"
  proof (intro ballI impI)
    fix k assume k: "k \<in> set (dict_keys d')" and r: "rename_key k = ''h3.blocks.0.norm1.weight''"
    have "k = ''h3.blocks'' @ ''.0.norm1.weight'' \<or> k = ''backbone.layers'' @ ''.0.norm1.weight''"
      using r by (intro rename_key_preimage_norm1) simp_all
    moreover have "k \<noteq> ''backbone.layers.0.norm1.weight''"
      using k gone(1) by (auto simp: dict_contains_def)
    ultimately show "k = ''h3.blocks.0.norm1.weight''" by simp
  qed
  have only_b: "\<forall>k \<in> set (dict_keys d'). rename_key k = ''h3.blocks.0.norm1.bias'' \<longrightarrow>
      k = ''h3.blocks.0.norm1.bias''"
  proof (intro ballI impI)
    fix k assume k: "k \<in> set (dict_keys d')" and r: "rename_key k = ''h3.blocks.0.norm1.bias''"
    have "k = ''h3.blocks'' @ ''.0.norm1.bias'' \<or> k = ''backbone.layers'' @ ''.0.norm1.bias''"
      using r by (intro rename_key_preimage_norm1) simp_all
    moreover have "k \<noteq> ''backbone.layers.0.norm1.bias''"
      using k gone(2) by (auto simp: dict_contains_def)
    ultimately show "k = ''h3.blocks.0.norm1.bias''" by simp
  qed
  obtain d'' where conv: "convert_state_dict d' = Inr d''"
    and sw: "map_of d'' ''h3.blocks.0.norm1.weight'' = map_of d' ''h3.blocks.0.norm1.weight''"
    using convert_state_dict_slot[OF d1 rename_key_target_fixed(1) only_w] by blast
  have sb: "map_of d'' ''h3.blocks.0.norm1.bias'' = map_of d' ''h3.blocks.0.norm1.bias''"
    using convert_state_dict_slot[OF d1 rename_key_target_fixed(2) only_b] conv by auto
  have e: "\<exists>d''. convert_state_dict d' = Inr d'' \<and>
        map_of d'' ''h3.blocks.0.norm1.weight'' = map_of d ''backbone.ln_0.weight'' \<and>
        map_of d'' ''h3.blocks.0.norm1.bias'' = map_of d ''backbone.ln_0.bias''"
    using conv sw sb tw tb by simp
  show ?thesis
    by (rule exI[of _ d'], intro conjI)
      (fact run tw tb cw cb gone cf c2 c1 rename_key_target_fixed e)+
qed

theorem sentinel_stored_as_layer0_norm1_witness:
  "distinct (dict_keys
     [(''backbone.ln_0.weight'', 0::nat), (''backbone.ln_0.bias'', 1),
      (''backbone.layers.0.norm1.weight'', 2), (''backbone.layers.0.norm1.bias'', 3),
      (''backbone.layers.0.norm2.weight'', 4), (''backbone.layers.0.norm2.bias'', 5)]) \<and>
   legacy_layout 1
     [(''backbone.ln_0.weight'', 0::nat), (''backbone.ln_0.bias'', 1),
      (''backbone.layers.0.norm1.weight'', 2), (''backbone.layers.0.norm1.bias'', 3),
      (''backbone.layers.0.norm2.weight'', 4), (''backbone.layers.0.norm2.bias'', 5)] \<and>
   (\<exists>d'. reindex 1
     [(''backbone.ln_0.weight'', 0::nat), (''backbone.ln_0.bias'', 1),
      (''backbone.layers.0.norm1.weight'', 2), (''backbone.layers.0.norm1.bias'', 3),
      (''backbone.layers.0.norm2.weight'', 4), (''backbone.layers.0.norm2.bias'', 5)] = Inr d' \<and>
      map_of d' ''h3.blocks.0.norm1.weight'' = Some 0 \<and>
      map_of d' ''h3.blocks.0.norm1.bias'' = Some 1 \<and>
      \<not> dict_contains d' ''backbone.layers.0.norm1.weight'' \<and>
      (\<exists>d''. convert_state_dict d' = Inr d'' \<and>
         map_of d'' ''h3.blocks.0.norm1.weight'' = Some 0 \<and>
         map_of d'' ''h3.blocks.0.norm1.bias'' = Some 1))"
proof -
  let ?d = "[(''backbone.ln_0.weight'', 0::nat), (''backbone.ln_0.bias'', 1),
      (''backbone.layers.0.norm1.weight'', 2), (''backbone.layers.0.norm1.bias'', 3),
      (''backbone.layers.0.norm2.weight'', 4), (''backbone.layers.0.norm2.bias'', 5)]"
  have h1: "0 < (1::nat)" by simp
  have h2: "distinct (dict_keys ?d)" by (simp add: dict_keys_def)
  have h3: "legacy_layout 1 ?d"
    by (simp add: legacy_layout_def params_def norm_key_small dict_contains_def dict_keys_def)
  obtain d' where run: "reindex (int 1) ?d = Inr d'"
    and tw: "map_of d' ''h3.blocks.0.norm1.weight'' = map_of ?d ''backbone.ln_0.weight''"
    and tb: "map_of d' ''h3.blocks.0.norm1.bias'' = map_of ?d ''backbone.ln_0.bias''"
    and gone: "\<not> dict_contains d' ''backbone.layers.0.norm1.weight''"
    and e: "\<exists>d''. convert_state_dict d' = Inr d'' \<and>
        map_of d'' ''h3.blocks.0.norm1.weight'' = map_of ?d ''backbone.ln_0.weight'' \<and>
        map_of d'' ''h3.blocks.0.norm1.bias'' = map_of ?d ''backbone.ln_0.bias''"
    using sentinel_stored_as_layer0_norm1[OF h1 h2 h3] by (elim exE conjE) blast
  have run': "reindex 1 ?d = Inr d'" using run by simp
  have tw': "map_of d' ''h3.blocks.0.norm1.weight'' = Some 0"
    and tb': "map_of d' ''h3.blocks.0.norm1.bias'' = Some 1"
    using tw tb by simp_all
  have e': "\<exists>d''. convert_state_dict d' = Inr d'' \<and>
         map_of d'' ''h3.blocks.0.norm1.weight'' = Some 0 \<and>
         map_of d'' ''h3.blocks.0.norm1.bias'' = Some 1"
    using e by simp
  have ex: "\<exists>d'. reindex 1 ?d = Inr d' \<and>
      map_of d' ''h3.blocks.0.norm1.weight'' = Some 0 \<and>
      map_of d' ''h3.blocks.0.norm1.bias'' = Some 1 \<and>
      \<not> dict_contains d' ''backbone.layers.0.norm1.weight'' \<and>
      (\<exists>d''. convert_state_dict d' = Inr d'' \<and>
         map_of d'' ''h3.blocks.0.norm1.weight'' = Some 0 \<and>
         map_of d'' ''h3.blocks.0.norm1.bias'' = Some 1)"
    by (rule exI[of _ d'], intro conjI) (fact run' tw' tb' gone e')+
  show ?thesis by (rule conjI[OF h2 conjI[OF h3 ex]])
qed

end
